theory Spec2Isabelle
  imports Complex_Main "HOL-Library.Word" "HOL-Library.Log_Nat"
begin

section \<open>JavaScript numbers and typed arrays\<close>

text \<open>
  A JavaScript \<open>number\<close> is modelled as a real, extended by the three special values
  that the arithmetic of the program can produce: the two infinities and \<open>NaN\<close>.
  The operators below give the exact result, of which the program has the nearest
  double; the rounding to the nearest double is written out (\<open>round_double\<close>, \<open>fl\<close>
  further down) where the number of iterations of a loop or a stored integer depends
  on it: in the frame count of the offline render and in the blend of its smoothing
  filter.  The sign of zero is not modelled (every divisor of the program is a count,
  a difference of two array indices or a positive constant, hence never \<open>-0\<close>).
\<close>

datatype number = Num real | PosInf | NegInf | NaN

fun isNaN :: "number \<Rightarrow> bool" where
  "isNaN NaN = True"
| "isNaN _ = False"

text \<open>The operator \<open>+\<close> of JavaScript on numbers.\<close>

fun js_add :: "number \<Rightarrow> number \<Rightarrow> number" where
  "js_add (Num a) (Num b) = Num (a + b)"
| "js_add NaN _ = NaN"
| "js_add _ NaN = NaN"
| "js_add PosInf NegInf = NaN"
| "js_add NegInf PosInf = NaN"
| "js_add PosInf _ = PosInf"
| "js_add NegInf _ = NegInf"
| "js_add _ PosInf = PosInf"
| "js_add _ NegInf = NegInf"

text \<open>The operator \<open>/\<close> of JavaScript on numbers; \<open>0 / 0\<close> is \<open>NaN\<close>.\<close>

fun js_div :: "number \<Rightarrow> number \<Rightarrow> number" where
  "js_div (Num a) (Num b) =
     (if b = 0 then (if a = 0 then NaN else if 0 < a then PosInf else NegInf)
      else Num (a / b))"
| "js_div NaN _ = NaN"
| "js_div _ NaN = NaN"
| "js_div (Num a) _ = Num 0"
| "js_div PosInf (Num b) = (if 0 \<le> b then PosInf else NegInf)"
| "js_div NegInf (Num b) = (if 0 \<le> b then NegInf else PosInf)"
| "js_div _ _ = NaN"

text \<open>The operators \<open>*\<close> and \<open><\<close> of JavaScript on numbers.\<close>

fun js_mul :: "number \<Rightarrow> number \<Rightarrow> number" where
  "js_mul (Num a) (Num b) = Num (a * b)"
| "js_mul NaN _ = NaN"
| "js_mul _ NaN = NaN"
| "js_mul (Num a) PosInf = (if a = 0 then NaN else if 0 < a then PosInf else NegInf)"
| "js_mul (Num a) NegInf = (if a = 0 then NaN else if 0 < a then NegInf else PosInf)"
| "js_mul PosInf (Num b) = (if b = 0 then NaN else if 0 < b then PosInf else NegInf)"
| "js_mul NegInf (Num b) = (if b = 0 then NaN else if 0 < b then NegInf else PosInf)"
| "js_mul PosInf PosInf = PosInf"
| "js_mul NegInf NegInf = PosInf"
| "js_mul _ _ = NegInf"

fun js_lt :: "number \<Rightarrow> number \<Rightarrow> bool" where
  "js_lt (Num a) (Num b) = (a < b)"
| "js_lt NaN _ = False"
| "js_lt _ NaN = False"
| "js_lt NegInf NegInf = False"
| "js_lt NegInf _ = True"
| "js_lt PosInf _ = False"
| "js_lt (Num a) PosInf = True"
| "js_lt (Num a) NegInf = False"

text \<open>
  Rounding a real to the nearest IEEE 754 double (binary64), ties to the even
  significand.  \<open>pow2 k\<close> is the power \<open>2 ^ k\<close> for an integer \<open>k\<close>, \<open>binade x\<close> is the
  exponent \<open>e\<close> with \<open>2 ^ e \<le> |x| < 2 ^ (e + 1)\<close>; the doubles of that binade are the
  multiples of \<open>2 ^ (e - 52)\<close>, those below \<open>2 ^ (- 1022)\<close> (the subnormal ones) the
  multiples of \<open>2 ^ (- 1074)\<close>.  The overflow to an infinity at \<open>2 ^ 1024\<close> is not
  modelled: the numbers that are rounded here are byte blends and frame counts.  The
  rounding is written out where the number of iterations of a loop or a stored byte
  depends on it (the frame count, the smoothing blend); quotients that are only
  returned or passed on are kept exact.
\<close>

definition pow2 :: "int \<Rightarrow> real" where
  "pow2 k = (if 0 \<le> k then 2 ^ nat k else 1 / 2 ^ nat (- k))"

definition binade :: "real \<Rightarrow> int" where
  "binade x =
     (let a = \<bar>x\<bar> in if 1 \<le> a then bitlen \<lfloor>a\<rfloor> - 1 else - bitlen (\<lceil>1 / a\<rceil> - 1))"

definition round_half_even :: "real \<Rightarrow> int" where
  "round_half_even m =
     (let f = \<lfloor>m\<rfloor>; d = m - of_int f
      in if d < 1 / 2 then f else if 1 / 2 < d then f + 1 else if even f then f else f + 1)"

definition double_ulp :: "real \<Rightarrow> real" where
  "double_ulp x = pow2 (max (binade x) (- 1022) - 52)"

definition round_double :: "real \<Rightarrow> real" where
  "round_double x =
     (if x = 0 then 0 else of_int (round_half_even (x / double_ulp x)) * double_ulp x)"

text \<open>The double that the program has for a number: a finite number is rounded.\<close>

fun fl :: "number \<Rightarrow> number" where
  "fl (Num x) = Num (round_double x)"
| "fl n = n"

text \<open>
  A \<open>Uint8Array\<close> is a list of bytes.  Reading inside the array gives the byte as a
  number; reading outside gives \<open>undefined\<close>, which arithmetic turns into \<open>NaN\<close>.
\<close>

type_synonym Uint8Array = "8 word list"

definition read_u8 :: "Uint8Array \<Rightarrow> nat \<Rightarrow> number" where
  "read_u8 a i = (if i < length a then Num (real (unat (a ! i))) else NaN)"

section \<open>Feature extractor: \<open>getAudioAverages\<close>\<close>

record averages =
  bass :: number
  mids :: number
  overall :: number

text \<open>The loop \<open>for (let i = lo; i < hi; i++) acc += audioData[i]\<close>.\<close>

function sum_loop :: "Uint8Array \<Rightarrow> nat \<Rightarrow> nat \<Rightarrow> number \<Rightarrow> number" where
  "sum_loop a i hi acc =
     (if i < hi then sum_loop a (Suc i) hi (js_add acc (read_u8 a i)) else acc)"
  by pat_completeness auto
termination
  by (relation "measure (\<lambda>(a, i, hi, acc). hi - i)") auto

declare sum_loop.simps [simp del]

text \<open>\<open>Math.floor(audioData.length * 0.1)\<close> and \<open>Math.floor(audioData.length * 0.4)\<close>.\<close>

definition bassEnd :: "Uint8Array \<Rightarrow> nat" where
  "bassEnd a = nat \<lfloor>real (length a) * 0.1\<rfloor>"

definition midsEnd :: "Uint8Array \<Rightarrow> nat" where
  "midsEnd a = nat \<lfloor>real (length a) * 0.4\<rfloor>"

definition zero_averages :: averages where
  "zero_averages = \<lparr>bass = Num 0, mids = Num 0, overall = Num 0\<rparr>"

definition getAudioAverages :: "Uint8Array option \<Rightarrow> averages" where
  "getAudioAverages audioData =
     (case audioData of
        None \<Rightarrow> zero_averages
      | Some a \<Rightarrow>
          if length a = 0 then zero_averages
          else
            let b = js_div (sum_loop a 0 (bassEnd a) (Num 0)) (Num (real (bassEnd a)));
                m = js_div (sum_loop a (bassEnd a) (midsEnd a) (Num 0))
                      (Num (real (midsEnd a) - real (bassEnd a)));
                v = js_div (sum_loop a 0 (length a) (Num 0)) (Num (real (length a)))
            in \<lparr>bass = (if isNaN b then Num 0 else b),
                mids = (if isNaN m then Num 0 else m),
                overall = (if isNaN v then Num 0 else v)\<rparr>)"

text \<open>
  The specification's band mean: the arithmetic mean of the magnitudes of \<open>S\<close> over the
  half-open index range \<open>[lo, hi)\<close>, and \<open>0\<close> where the range is empty.
\<close>

definition spec_mean :: "Uint8Array \<Rightarrow> nat \<Rightarrow> nat \<Rightarrow> real" where
  "spec_mean S lo hi =
     (if hi \<le> lo then 0 else (\<Sum>k = lo..<hi. real (unat (S ! k))) / real (hi - lo))"

section \<open>Particle simulator: \<open>initParticles\<close> and \<open>updateParticles\<close>\<close>

text \<open>
  The fields \<open>x\<close>, \<open>y\<close>, \<open>vx\<close>, \<open>vy\<close> of a \<open>Particle\<close> carry the prefix \<open>p_\<close> here.
  Positions and velocities are finite numbers (reals).  The \<open>count\<close> of a
  configuration is an integer, as the control that sets it yields (0 to 500 in
  steps of 10).
\<close>

datatype direction = Top | Bottom | Left | Right

record ParticleConfig =
  enabled :: bool
  count :: int
  color :: string
  blur :: real
  direction :: direction
  speed :: real

record Particle =
  p_x :: real
  p_y :: real
  p_vx :: real
  p_vy :: real

text \<open>
  \<open>Math.random()\<close> is a stream \<open>rnd\<close> of numbers together with a cursor, the number
  of values drawn so far: the \<open>k\<close>-th call returns \<open>rnd k\<close>.  The particle array and
  the cursor together are the state of the simulator.
\<close>

type_synonym particle_state = "Particle list \<times> nat"

text \<open>
  One particle of \<open>initParticles\<close>; the object literal draws \<open>x\<close>, then \<open>y\<close>, then
  the velocity.
\<close>

definition new_particle :: "direction \<Rightarrow> real \<Rightarrow> real \<Rightarrow> (nat \<Rightarrow> real) \<Rightarrow> nat \<Rightarrow> Particle" where
  "new_particle d width height rnd k =
     (case d of
        Top \<Rightarrow> \<lparr>p_x = rnd k * width, p_y = rnd (k + 1) * height,
                 p_vx = 0, p_vy = 1 + rnd (k + 2)\<rparr>
      | Bottom \<Rightarrow> \<lparr>p_x = rnd k * width, p_y = rnd (k + 1) * height,
                 p_vx = 0, p_vy = - 1 - rnd (k + 2)\<rparr>
      | Left \<Rightarrow> \<lparr>p_x = rnd k * width, p_y = rnd (k + 1) * height,
                 p_vx = 1 + rnd (k + 2), p_vy = 0\<rparr>
      | Right \<Rightarrow> \<lparr>p_x = rnd k * width, p_y = rnd (k + 1) * height,
                 p_vx = - 1 - rnd (k + 2), p_vy = 0\<rparr>)"

text \<open>The loop \<open>for (let i = 0; i < config.count; i++) { ...; particles.push(p) }\<close>.\<close>

function init_loop ::
  "ParticleConfig \<Rightarrow> real \<Rightarrow> real \<Rightarrow> (nat \<Rightarrow> real) \<Rightarrow> nat \<Rightarrow> particle_state \<Rightarrow> particle_state"
where
  "init_loop config width height rnd i st =
     (if int i < count config
      then init_loop config width height rnd (Suc i)
             (fst st @ [new_particle (direction config) width height rnd (snd st)], snd st + 3)
      else st)"
  by pat_completeness auto
termination
  by (relation "measure (\<lambda>(config, width, height, rnd, i, st). nat (count config - int i))") auto

declare init_loop.simps [simp del]

text \<open>\<open>initParticles\<close> first empties the array (\<open>particles.length = 0\<close>).\<close>

definition initParticles ::
  "Particle list \<Rightarrow> ParticleConfig \<Rightarrow> real \<Rightarrow> real \<Rightarrow> (nat \<Rightarrow> real) \<Rightarrow> nat \<Rightarrow> particle_state"
where
  "initParticles particles config width height rnd k =
     init_loop config width height rnd 0 ([], k)"

text \<open>The body of the loop of \<open>updateParticles\<close> for one particle.\<close>

definition update_particle ::
  "ParticleConfig \<Rightarrow> real \<Rightarrow> real \<Rightarrow> real \<Rightarrow> (nat \<Rightarrow> real) \<Rightarrow> Particle \<Rightarrow> nat \<Rightarrow> Particle \<times> nat"
where
  "update_particle config width height speedMultiplier rnd p k =
     (let p1 = p\<lparr>p_x := p_x p + p_vx p * speed config * speedMultiplier\<rparr>;
          p2 = p1\<lparr>p_y := p_y p1 + p_vy p1 * speed config * speedMultiplier\<rparr>
      in case direction config of
           Top \<Rightarrow> if p_y p2 > height + 5
                  then (p2\<lparr>p_y := - 5, p_x := rnd k * width\<rparr>, Suc k) else (p2, k)
         | Bottom \<Rightarrow> if p_y p2 < - 5
                  then (p2\<lparr>p_y := height + 5, p_x := rnd k * width\<rparr>, Suc k) else (p2, k)
         | Left \<Rightarrow> if p_x p2 > width + 5
                  then (p2\<lparr>p_x := - 5, p_y := rnd k * height\<rparr>, Suc k) else (p2, k)
         | Right \<Rightarrow> if p_x p2 < - 5
                  then (p2\<lparr>p_x := width + 5, p_y := rnd k * height\<rparr>, Suc k) else (p2, k))"

text \<open>The loop \<open>for (const p of particles)\<close>, in array order.\<close>

fun update_loop ::
  "ParticleConfig \<Rightarrow> real \<Rightarrow> real \<Rightarrow> real \<Rightarrow> (nat \<Rightarrow> real) \<Rightarrow> Particle list \<Rightarrow> nat \<Rightarrow> particle_state"
where
  "update_loop config width height speedMultiplier rnd [] k = ([], k)"
| "update_loop config width height speedMultiplier rnd (p # ps) k =
     (let (p', k') = update_particle config width height speedMultiplier rnd p k;
          (ps', k'') = update_loop config width height speedMultiplier rnd ps k'
      in (p' # ps', k''))"

definition updateParticles ::
  "Particle list \<Rightarrow> ParticleConfig \<Rightarrow> real \<Rightarrow> real \<Rightarrow> real \<Rightarrow> (nat \<Rightarrow> real) \<Rightarrow> nat \<Rightarrow> particle_state"
where
  "updateParticles particles config width height bassIntensity rnd k =
     (let speedMultiplier = 1 + bassIntensity * 0.3
      in update_loop config width height speedMultiplier rnd particles k)"

text \<open>
  The callers compute \<open>bassIntensity = bass / 255\<close> from the averages of the current
  spectrum and update the particles only when they are enabled (the \<open>render\<close>
  closure of \<open>useCanvasRenderer\<close>, and the frame loop of \<open>handleRenderVideo\<close>).
  The particle model has finite coordinates only, so the tick is \<open>None\<close> should the
  intensity not be a finite number; \<open>particle_tick_total\<close> below shows that this
  never happens.
\<close>

definition bassIntensity :: "Uint8Array option \<Rightarrow> number" where
  "bassIntensity audioData = js_div (bass (getAudioAverages audioData)) (Num 255)"

definition particle_tick ::
  "ParticleConfig \<Rightarrow> real \<Rightarrow> real \<Rightarrow> (nat \<Rightarrow> real) \<Rightarrow> Uint8Array option \<Rightarrow> particle_state
     \<Rightarrow> particle_state option"
where
  "particle_tick config width height rnd audioData st =
     (if enabled config
      then (case bassIntensity audioData of
              Num bi \<Rightarrow> Some (updateParticles (fst st) config width height bi rnd (snd st))
            | _ \<Rightarrow> None)
      else Some st)"

text \<open>
  A sequence of ticks of \<open>updateParticles\<close>, one bass intensity per tick.
\<close>

fun run_ticks ::
  "ParticleConfig \<Rightarrow> real \<Rightarrow> real \<Rightarrow> (nat \<Rightarrow> real) \<Rightarrow> real list \<Rightarrow> particle_state \<Rightarrow> particle_state"
where
  "run_ticks config width height rnd [] st = st"
| "run_ticks config width height rnd (bi # bis) st =
     run_ticks config width height rnd bis
       (updateParticles (fst st) config width height bi rnd (snd st))"



text \<open>
  The specification's words for one tick of one particle: the position moves by
  velocity \<times> speed \<times> (1 + 0.3 \<times> bassIntensity); the particle exits when it is past the
  edge it travels towards by more than the margin of 5; it respawns at the opposite
  edge, with a random coordinate \<open>r \<times> dimension\<close> on the perpendicular axis.
\<close>

definition spec_moved :: "ParticleConfig \<Rightarrow> real \<Rightarrow> Particle \<Rightarrow> Particle" where
  "spec_moved config bi p =
     p\<lparr>p_x := p_x p + p_vx p * speed config * (1 + 0.3 * bi),
       p_y := p_y p + p_vy p * speed config * (1 + 0.3 * bi)\<rparr>"

definition spec_exits :: "ParticleConfig \<Rightarrow> real \<Rightarrow> real \<Rightarrow> Particle \<Rightarrow> bool" where
  "spec_exits config width height q =
     (case direction config of
        Top \<Rightarrow> p_y q > height + 5
      | Bottom \<Rightarrow> p_y q < - 5
      | Left \<Rightarrow> p_x q > width + 5
      | Right \<Rightarrow> p_x q < - 5)"

definition spec_respawn :: "ParticleConfig \<Rightarrow> real \<Rightarrow> real \<Rightarrow> real \<Rightarrow> Particle \<Rightarrow> Particle" where
  "spec_respawn config width height r q =
     (case direction config of
        Top \<Rightarrow> q\<lparr>p_y := - 5, p_x := r * width\<rparr>
      | Bottom \<Rightarrow> q\<lparr>p_y := height + 5, p_x := r * width\<rparr>
      | Left \<Rightarrow> q\<lparr>p_x := - 5, p_y := r * height\<rparr>
      | Right \<Rightarrow> q\<lparr>p_x := width + 5, p_y := r * height\<rparr>)"

text \<open>The number of particles of a list that exit in one tick.\<close>

definition spec_crossings :: "ParticleConfig \<Rightarrow> real \<Rightarrow> real \<Rightarrow> real \<Rightarrow> Particle list \<Rightarrow> nat" where
  "spec_crossings config width height bi ps =
     length (filter (\<lambda>p. spec_exits config width height (spec_moved config bi p)) ps)"

text \<open>A small configuration for concrete evaluations.\<close>

definition demo_config :: ParticleConfig where
  "demo_config = \<lparr>enabled = True, count = 2, color = ''#FFFFFF'', blur = 10,
                   direction = Top, speed = 1\<rparr>"

text \<open>
  The coordinate of a particle on the axis of travel, the frame's dimension on that
  axis, and the invariant of the simulator: the coordinate is within the margin, and
  the velocity points the way \<open>initParticles\<close> set it (away from the named edge).
\<close>

definition travel_coord :: "direction \<Rightarrow> Particle \<Rightarrow> real" where
  "travel_coord d p = (case d of Top \<Rightarrow> p_y p | Bottom \<Rightarrow> p_y p | Left \<Rightarrow> p_x p | Right \<Rightarrow> p_x p)"

definition travel_dimension :: "direction \<Rightarrow> real \<Rightarrow> real \<Rightarrow> real" where
  "travel_dimension d width height =
     (case d of Top \<Rightarrow> height | Bottom \<Rightarrow> height | Left \<Rightarrow> width | Right \<Rightarrow> width)"

definition within_margin :: "direction \<Rightarrow> real \<Rightarrow> real \<Rightarrow> Particle \<Rightarrow> bool" where
  "within_margin d width height p =
     (- 5 \<le> travel_coord d p \<and> travel_coord d p \<le> travel_dimension d width height + 5)"

definition drifts :: "direction \<Rightarrow> Particle \<Rightarrow> bool" where
  "drifts d p =
     (case d of Top \<Rightarrow> 0 \<le> p_vy p | Bottom \<Rightarrow> p_vy p \<le> 0
              | Left \<Rightarrow> 0 \<le> p_vx p | Right \<Rightarrow> p_vx p \<le> 0)"

definition particle_inv :: "direction \<Rightarrow> real \<Rightarrow> real \<Rightarrow> Particle \<Rightarrow> bool" where
  "particle_inv d width height p = (within_margin d width height p \<and> drifts d p)"

section \<open>The drawing surface\<close>

text \<open>
  The calls on the 2D context of the canvas, in the order they are made.  A paint is
  a CSS colour or the radial gradient of the visualizer (inner radius, outer radius,
  and the colour whose \<open>hexToRgba\<close> at alpha 0.7 and 0.9 are its two stops).  A font
  is given by its parts (italic, bold, size in pixels, family) instead of the CSS
  string assembled from them, a letter spacing by its number of pixels.
\<close>

datatype paint = Colour string | RadialGradient real real string

datatype canvas_op =
    Save
  | Restore
  | Translate real real
  | Rotate real
  | SetFillStyle paint
  | SetStrokeStyle paint
  | SetLineWidth real
  | SetFont bool bool real string
  | SetTextAlign string
  | SetTextBaseline string
  | SetLetterSpacing real
  | BeginPath
  | MoveTo real real
  | LineTo number real
  | Stroke
  | FillText string real real

section \<open>Text layer: \<open>drawText\<close>\<close>

record TextConfig =
  mainText :: string
  mainColor :: string
  mainSize :: real
  mainFont :: string
  mainBold :: bool
  mainItalic :: bool
  mainLetterSpacing :: real
  mainYOffset :: real
  authorText :: string
  authorColor :: string
  authorSize :: real
  authorFont :: string
  authorBold :: bool
  authorItalic :: bool
  authorLetterSpacing :: real
  authorYOffset :: real

text \<open>
  \<open>width\<close> and \<open>height\<close> are those of \<open>ctx.canvas\<close>; \<open>hasLetterSpacing\<close> is the test
  \<open>'letterSpacing' in ctx\<close>.  A string is truthy when it is not empty.
\<close>

definition drawText :: "real \<Rightarrow> real \<Rightarrow> bool \<Rightarrow> TextConfig \<Rightarrow> canvas_op list" where
  "drawText width height hasLetterSpacing config =
     (let centerX = width / 2 in
      if mainText config \<noteq> [] then
        (let mainFontSize = height * (mainSize config / 100);
             mainY = (height / 2) + mainYOffset config
         in [Save,
             SetFont (mainItalic config) (mainBold config) mainFontSize (mainFont config),
             SetFillStyle (Colour (mainColor config)),
             SetTextAlign ''center'',
             SetTextBaseline ''middle'']
            @ (if hasLetterSpacing then [SetLetterSpacing (mainLetterSpacing config)] else [])
            @ [FillText (mainText config) centerX mainY, Restore]
            @ (if authorText config \<noteq> [] then
                 (let authorFontSize = height * (authorSize config / 100);
                      authorY = mainY + (mainFontSize / 2) + authorYOffset config
                                  + (authorFontSize / 2)
                  in [Save,
                      SetFont (authorItalic config) (authorBold config) authorFontSize
                        (authorFont config),
                      SetFillStyle (Colour (authorColor config)),
                      SetTextAlign ''center'',
                      SetTextBaseline ''middle'']
                     @ (if hasLetterSpacing
                        then [SetLetterSpacing (authorLetterSpacing config)] else [])
                     @ [FillText (authorText config) centerX authorY, Restore])
               else []))
      else [])"

text \<open>The strings that a list of calls passes to \<open>fillText\<close>, in order.\<close>

fun fill_texts :: "canvas_op list \<Rightarrow> string list" where
  "fill_texts [] = []"
| "fill_texts (FillText t x y # ops) = t # fill_texts ops"
| "fill_texts (_ # ops) = fill_texts ops"

definition demo_text :: TextConfig where
  "demo_text =
     \<lparr>mainText = '''', mainColor = ''#FFFFFF'', mainSize = 5, mainFont = ''Arial'',
      mainBold = True, mainItalic = False, mainLetterSpacing = 1, mainYOffset = 150,
      authorText = ''by Sound Fold Studio'', authorColor = ''#DDDDDD'', authorSize = 5 / 2,
      authorFont = ''Arial'', authorBold = False, authorItalic = True,
      authorLetterSpacing = 1, authorYOffset = 10\<rparr>"

section \<open>Visualizer geometry: \<open>drawCircularVisualizer\<close>\<close>

text \<open>
  The field \<open>color\<close> of a \<open>VisualizerConfig\<close> is \<open>color'\<close> here (the particle
  configuration has a field of that name), and the fields of the logo rectangle carry
  the prefix \<open>r_\<close>.  \<open>barCount\<close> is an integer, as the control that sets it yields
  (8 to 128 in steps of 4).
\<close>

datatype ReflectionType = ReflNone | ReflTwo | ReflFour | ReflEight

record VisualizerConfig =
  color' :: string
  rotation :: real
  reflection :: ReflectionType
  sensitivity :: real
  smoothing :: real
  barCount :: int
  barThickness :: real
  barMaxHeight :: real
  barDistance :: real

record rect =
  r_x :: real
  r_y :: real
  r_w :: real
  r_h :: real

text \<open>The closure \<open>drawBar\<close>: a height below 1 draws nothing.\<close>

definition drawBar :: "real \<Rightarrow> number \<Rightarrow> canvas_op list" where
  "drawBar radius height =
     (if js_lt height (Num 1) then []
      else [BeginPath, MoveTo radius 0, LineTo (js_add (Num radius) height) 0, Stroke])"

text \<open>The statement sequence \<open>ctx.save(); ctx.rotate(a); drawBar(barHeight); ctx.restore();\<close>.\<close>

definition bar_at :: "real \<Rightarrow> real \<Rightarrow> number \<Rightarrow> canvas_op list" where
  "bar_at radius a barHeight = [Save, Rotate a] @ drawBar radius barHeight @ [Restore]"

text \<open>\<open>(dataSlice[i] / 255) * maxBarHeight * config.sensitivity\<close>.\<close>

definition bar_height :: "Uint8Array \<Rightarrow> nat \<Rightarrow> real \<Rightarrow> real \<Rightarrow> number" where
  "bar_height dataSlice i maxBarHeight sens =
     js_mul (js_mul (js_div (read_u8 dataSlice i) (Num 255)) (Num maxBarHeight)) (Num sens)"

text \<open>
  The four branches on \<open>config.reflection\<close>, each with its loop over the base bars.
  \<open>clampedCount\<close> is the local \<open>barCount\<close> of the source, the configured count
  clamped to 8..128, so the integer quotient is \<open>Math.floor\<close> of the division.
\<close>

definition draw_bars ::
  "VisualizerConfig \<Rightarrow> real \<Rightarrow> real \<Rightarrow> int \<Rightarrow> Uint8Array \<Rightarrow> canvas_op list"
where
  "draw_bars config radius maxBarHeight clampedCount audioData =
     (if reflection config = ReflEight then
        (let count = clampedCount div 8;
             dataSlice = take (nat count) audioData
         in concat (map (\<lambda>i.
              let barHeight = bar_height dataSlice i maxBarHeight (sensitivity config);
                  angle = (real i / real_of_int count) * (pi / 4)
              in bar_at radius angle barHeight
                 @ bar_at radius (- angle) barHeight
                 @ bar_at radius (pi / 2 - angle) barHeight
                 @ bar_at radius (pi / 2 + angle) barHeight
                 @ bar_at radius (pi - angle) barHeight
                 @ bar_at radius (pi + angle) barHeight
                 @ bar_at radius (3 * pi / 2 - angle) barHeight
                 @ bar_at radius (3 * pi / 2 + angle) barHeight)
              [0..<nat count]))
      else if reflection config = ReflFour then
        (let count = clampedCount div 4;
             dataSlice = take (nat count) audioData
         in concat (map (\<lambda>i.
              let barHeight = bar_height dataSlice i maxBarHeight (sensitivity config);
                  angle = (real i / real_of_int count) * (pi / 2)
              in bar_at radius angle barHeight
                 @ bar_at radius (- angle) barHeight
                 @ bar_at radius (pi - angle) barHeight
                 @ bar_at radius (pi + angle) barHeight)
              [0..<nat count]))
      else if reflection config = ReflTwo then
        (let count = clampedCount div 2;
             dataSlice = take (nat count) audioData
         in concat (map (\<lambda>i.
              let barHeight = bar_height dataSlice i maxBarHeight (sensitivity config);
                  angle = (real i / real_of_int count) * pi
              in bar_at radius angle barHeight
                 @ bar_at radius (- angle) barHeight)
              [0..<nat count]))
      else
        (let dataSlice = take (nat clampedCount) audioData
         in concat (map (\<lambda>i.
              let barHeight = bar_height dataSlice i maxBarHeight (sensitivity config);
                  angle = (real i / real_of_int clampedCount) * (pi * 2)
              in bar_at radius angle barHeight)
              [0..<nat clampedCount])))"

definition clamped_barCount :: "VisualizerConfig \<Rightarrow> int" where
  "clamped_barCount config = max 8 (min 128 (barCount config))"

definition drawCircularVisualizer ::
  "Uint8Array \<Rightarrow> rect \<Rightarrow> VisualizerConfig \<Rightarrow> canvas_op list"
where
  "drawCircularVisualizer audioData logoRect config =
     (let clampedCount = clamped_barCount config;
          maxBarHeight = (r_w logoRect * 0.5 + 20) * barMaxHeight config;
          barWidth = max 1 (r_w logoRect * barThickness config);
          centerX = r_x logoRect + r_w logoRect / 2;
          centerY = r_y logoRect + r_h logoRect / 2;
          radius = min (r_w logoRect) (r_h logoRect) / 2 + 15
                     + (r_w logoRect * barDistance config);
          gradient = RadialGradient radius (radius + maxBarHeight) (color' config)
      in [Save, Translate centerX centerY, Rotate (rotation config * (pi / 180)),
          SetFillStyle gradient, SetLineWidth barWidth, SetStrokeStyle gradient]
         @ draw_bars config radius maxBarHeight clampedCount audioData
         @ [Restore])"

text \<open>The angles that a list of calls passes to \<open>rotate\<close>, in order.\<close>

fun rotations :: "canvas_op list \<Rightarrow> real list" where
  "rotations [] = []"
| "rotations (Rotate a # ops) = a # rotations ops"
| "rotations (_ # ops) = rotations ops"

text \<open>
  The specification's fold factor, base angle \<open>(i / distinctCount) \<times> (2\<pi> / F)\<close> and
  table of the angular offsets of a base angle.
\<close>

fun spec_fold :: "ReflectionType \<Rightarrow> nat" where
  "spec_fold ReflNone = 1"
| "spec_fold ReflTwo = 2"
| "spec_fold ReflFour = 4"
| "spec_fold ReflEight = 8"

definition spec_base_angle :: "nat \<Rightarrow> nat \<Rightarrow> nat \<Rightarrow> real" where
  "spec_base_angle i distinctCount F = (real i / real distinctCount) * (2 * pi / real F)"

fun spec_offsets :: "ReflectionType \<Rightarrow> real \<Rightarrow> real list" where
  "spec_offsets ReflNone a = [a]"
| "spec_offsets ReflTwo a = [a, - a]"
| "spec_offsets ReflFour a = [a, - a, pi - a, pi + a]"
| "spec_offsets ReflEight a =
     [a, - a, pi / 2 - a, pi / 2 + a, pi - a, pi + a, 3 * pi / 2 - a, 3 * pi / 2 + a]"

definition spec_distinctCount :: "VisualizerConfig \<Rightarrow> nat" where
  "spec_distinctCount config =
     nat \<lfloor>real_of_int (clamped_barCount config) / real (spec_fold (reflection config))\<rfloor>"

text \<open>
  The angles of the bars: every rotation after the first one, which turns the whole
  assembly by \<open>config.rotation\<close> degrees.
\<close>

definition bar_angles :: "Uint8Array \<Rightarrow> rect \<Rightarrow> VisualizerConfig \<Rightarrow> real list" where
  "bar_angles audioData logoRect config =
     tl (rotations (drawCircularVisualizer audioData logoRect config))"

text \<open>
  The specification's description of the whole drawing.  The radius, the maximal bar
  height and the height of base bar \<open>i\<close> are the derived quantities of the
  specification (a bin that the spectrum does not have has no magnitude: its height
  is \<open>NaN\<close>, which is not below 1).  A bar at an angle is the radial segment from
  \<open>radius\<close> to \<open>radius + height\<close>, stroked in a coordinate system turned by that angle
  and restored afterwards, and it is skipped when its height is below 1.  Base bar
  \<open>i\<close> is drawn once for each offset of the table, every copy with the height of
  bar \<open>i\<close>.
\<close>

definition spec_radius :: "rect \<Rightarrow> VisualizerConfig \<Rightarrow> real" where
  "spec_radius logoRect config =
     min (r_w logoRect) (r_h logoRect) / 2 + 15 + r_w logoRect * barDistance config"

definition spec_maxBarHeight :: "rect \<Rightarrow> VisualizerConfig \<Rightarrow> real" where
  "spec_maxBarHeight logoRect config = (r_w logoRect * 0.5 + 20) * barMaxHeight config"

definition spec_height :: "Uint8Array \<Rightarrow> rect \<Rightarrow> VisualizerConfig \<Rightarrow> nat \<Rightarrow> number" where
  "spec_height spectrum logoRect config i =
     (if i < length spectrum
      then Num (real (unat (spectrum ! i)) / 255 * spec_maxBarHeight logoRect config
                  * sensitivity config)
      else NaN)"

definition spec_bar :: "real \<Rightarrow> real \<Rightarrow> number \<Rightarrow> canvas_op list" where
  "spec_bar radius a h =
     [Save, Rotate a]
     @ (if js_lt h (Num 1) then []
        else [BeginPath, MoveTo radius 0, LineTo (js_add (Num radius) h) 0, Stroke])
     @ [Restore]"

definition spec_bars :: "Uint8Array \<Rightarrow> rect \<Rightarrow> VisualizerConfig \<Rightarrow> canvas_op list" where
  "spec_bars spectrum logoRect config =
     concat (map (\<lambda>i.
        concat (map (\<lambda>a. spec_bar (spec_radius logoRect config) a
                              (spec_height spectrum logoRect config i))
                  (spec_offsets (reflection config)
                     (spec_base_angle i (spec_distinctCount config)
                        (spec_fold (reflection config))))))
       [0..<spec_distinctCount config])"

text \<open>The base indices whose bar is not skipped, and the bars stroked by a list of calls.\<close>

definition spec_visible :: "Uint8Array \<Rightarrow> rect \<Rightarrow> VisualizerConfig \<Rightarrow> nat list" where
  "spec_visible spectrum logoRect config =
     filter (\<lambda>i. \<not> js_lt (spec_height spectrum logoRect config i) (Num 1))
       [0..<spec_distinctCount config]"

definition strokes :: "canvas_op list \<Rightarrow> nat" where
  "strokes ops = length (filter (\<lambda>op. op = Stroke) ops)"

text \<open>The initial configuration of the application, for concrete evaluations.\<close>

definition demo_visualizer :: VisualizerConfig where
  "demo_visualizer =
     \<lparr>color' = ''#A78BFA'', rotation = 0, reflection = ReflFour, sensitivity = 9 / 10,
      smoothing = 71 / 100, barCount = 100, barThickness = 21 / 1000, barMaxHeight = 1,
      barDistance = 8 / 100\<rparr>"

section \<open>Smoothing filter of the offline render\<close>

text \<open>
  Storing a number into a \<open>Uint8Array\<close> converts it (\<open>ToUint8\<close>): the number is
  truncated towards zero and taken modulo 256; \<open>NaN\<close> and the infinities become 0.
\<close>

definition to_uint8 :: "number \<Rightarrow> 8 word" where
  "to_uint8 n =
     (case n of Num r \<Rightarrow> word_of_int (if 0 \<le> r then \<lfloor>r\<rfloor> else \<lceil>r\<rceil>) | _ \<Rightarrow> 0)"

text \<open>
  The loop
  \<open>for (let j = 0; j < frequencyBinCount; j++)
     smoothedDataArray[j] = smoothingFactor * smoothedDataArray[j] + (1 - smoothingFactor) * rawDataArray[j]\<close>.
  Both arrays are \<open>Uint8Array\<close>s; a store outside the array does nothing.  The
  difference, the two products and the sum are doubles: each is rounded (\<open>fl\<close>)
  before the store truncates the sum.
\<close>

function smooth_loop :: "real \<Rightarrow> Uint8Array \<Rightarrow> nat \<Rightarrow> nat \<Rightarrow> Uint8Array \<Rightarrow> Uint8Array" where
  "smooth_loop smoothingFactor raw frequencyBinCount j smoothed =
     (if j < frequencyBinCount
      then smooth_loop smoothingFactor raw frequencyBinCount (Suc j)
             (smoothed[j := to_uint8
                (fl (js_add
                   (fl (js_mul (Num smoothingFactor) (read_u8 smoothed j)))
                   (fl (js_mul (fl (Num (1 - smoothingFactor))) (read_u8 raw j)))))])
      else smoothed)"
  by pat_completeness auto
termination
  by (relation "measure (\<lambda>(smoothingFactor, raw, frequencyBinCount, j, smoothed).
        frequencyBinCount - j)") auto

declare smooth_loop.simps [simp del]

text \<open>
  The smoothed array after \<open>n\<close> frames whose raw spectrum is the constant \<open>R\<close>,
  starting from the zero-filled array of the same length.
\<close>

definition smoothing_ticks :: "real \<Rightarrow> Uint8Array \<Rightarrow> nat \<Rightarrow> Uint8Array" where
  "smoothing_ticks smoothingFactor R n =
     ((\<lambda>S. smooth_loop smoothingFactor R (length R) 0 S) ^^ n) (replicate (length R) 0)"

text \<open>One element of the update, on the values the arrays hold.\<close>

definition blend :: "real \<Rightarrow> 8 word \<Rightarrow> 8 word \<Rightarrow> 8 word" where
  "blend a s r =
     to_uint8 (Num (round_double
       (round_double (a * real (unat s)) + round_double (round_double (1 - a) * real (unat r)))))"

section \<open>Offline render: \<open>handleRenderVideo\<close>\<close>

text \<open>
  The handler is modelled by the list of the calls it makes on its collaborators
  (React state setters, console, audio decoder, encoders, muxer, offline analyser,
  \<open>updateParticles\<close>, \<open>drawFrame\<close>, timers, download), in order.  The particle
  simulator and the compositor are modelled in the sections above; here a call of
  \<open>updateParticles\<close> is recorded with its bass intensity and a call of \<open>drawFrame\<close>
  with the smoothed spectrum it is given.
\<close>

datatype effect =
    SetIsPlaying bool
  | SetIsRendering bool
  | SetRenderProgress number
  | SetRenderMessage string
  | SetError "string option"
  | SetCurrentTime real
  | ConsoleLog string
  | ConsoleError string
  | Wait real
  | DecodeAudioData
  | CreateMuxer
  | ConfigureVideoEncoder
  | ConfigureAudioEncoder
  | EncodeAudio
  | FlushAudioEncoder
  | PauseAudio
  | SetAudioCurrentTime real
  | InitParticles
  | SampleSpectrum real
  | UpdateParticles number
  | DrawFrame Uint8Array
  | EncodeVideoFrame real
  | FlushVideoEncoder
  | FinalizeMuxer
  | Download string
  | CloseAudioContext

text \<open>
  What the handler reads from its surroundings.  \<open>canvasRef_current\<close>,
  \<open>audioRef_current\<close>, \<open>audioFile\<close> and \<open>analyserRef_current\<close> tell whether the
  value is set; \<open>duration\<close> is \<open>audioRef.current.duration\<close>, a finite number of
  seconds; \<open>decodeAudioData\<close> is the message of the error with which the decoder
  rejects, if it does; \<open>getContext\<close> tells whether the canvas gives a 2D context;
  \<open>isRenderingRef_current i\<close> is the value of \<open>isRenderingRef.current\<close> when iteration
  \<open>i\<close> of the frame loop reads it (the Cancel button sets it to \<open>false\<close> between two
  frames); \<open>getByteFrequencyData t\<close> is the spectrum that the offline analyser yields
  for the source started at offset \<open>t\<close>.  Failures of the encoders and of the muxer
  are not modelled.
\<close>

record render_env =
  canvasRef_current :: bool
  audioRef_current :: bool
  audioFile :: bool
  analyserRef_current :: bool
  isRendering :: bool
  duration :: real
  decodeAudioData :: "string option"
  getContext :: bool
  isRenderingRef_current :: "nat \<Rightarrow> bool"
  getByteFrequencyData :: "real \<Rightarrow> Uint8Array"
  frequencyBinCount :: nat
  visualizerConfig :: VisualizerConfig
  particleConfig :: ParticleConfig
  renderSpeed :: real
  projectName :: string

text \<open>\<open>Math.round\<close>; the progress is \<open>NaN\<close> when \<open>totalFrames\<close> is 0.\<close>

fun js_round :: "number \<Rightarrow> number" where
  "js_round (Num r) = Num (of_int \<lfloor>r + 1 / 2\<rfloor>)"
| "js_round n = n"

text \<open>
  \<open>analyser.getByteFrequencyData(array)\<close> copies the spectrum into the array: excess
  spectrum is dropped, excess elements of the array are left as they are.
\<close>

definition fill_u8 :: "Uint8Array \<Rightarrow> Uint8Array \<Rightarrow> Uint8Array" where
  "fill_u8 array spectrum = take (length array) spectrum @ drop (length spectrum) array"

text \<open>
  The frame loop \<open>for (let i = 0; i <= totalFrames; i++)\<close>.  The state is the pair of
  \<open>rawDataArray\<close> and \<open>smoothedDataArray\<close>; the result is the list of calls made and
  the message of the error thrown, if one is thrown.
\<close>

function render_frames ::
  "render_env \<Rightarrow> real \<Rightarrow> int \<Rightarrow> nat \<Rightarrow> Uint8Array \<times> Uint8Array \<Rightarrow> effect list \<times> string option"
where
  "render_frames env frameRate totalFrames i st =
     (if int i \<le> totalFrames then
        (if \<not> isRenderingRef_current env i
         then ([ConsoleLog ''Rendering cancelled by user.''], Some ''Render cancelled'')
         else
           (let time = real i / frameRate;
                raw = fill_u8 (fst st) (getByteFrequencyData env time);
                smoothed = smooth_loop (smoothing (visualizerConfig env)) raw
                             (frequencyBinCount env) 0 (snd st);
                rest = render_frames env frameRate totalFrames (Suc i) (raw, smoothed)
            in ([SampleSpectrum time]
                @ (if enabled (particleConfig env)
                   then [UpdateParticles
                           (js_div (bass (getAudioAverages (Some smoothed))) (Num 255))]
                   else [])
                @ [DrawFrame smoothed,
                   EncodeVideoFrame (real i * 1000000 / frameRate),
                   SetRenderProgress
                     (js_round (js_mul (js_div (Num (real i)) (Num (real_of_int totalFrames)))
                                  (Num 100)))]
                @ (if renderSpeed env > 1 then [Wait (10 * (renderSpeed env - 1))] else [])
                @ fst rest,
                snd rest)))
      else ([], None))"
  by pat_completeness auto
termination
  by (relation "measure (\<lambda>(env, frameRate, totalFrames, i, st). nat (totalFrames + 1 - int i))")
     auto

declare render_frames.simps [simp del]

text \<open>
  \<open>const totalFrames = Math.floor(audioDuration * frameRate)\<close>: the floor of the
  product as the program has it, a double.
\<close>

definition total_frames :: "render_env \<Rightarrow> real \<Rightarrow> int" where
  "total_frames env frameRate = \<lfloor>round_double (duration env * frameRate)\<rfloor>"

text \<open>
  The body of the \<open>try\<close> block, with the constant \<open>frameRate\<close> as a parameter.
\<close>

definition render_try :: "render_env \<Rightarrow> real \<Rightarrow> effect list \<times> string option" where
  "render_try env frameRate =
     (let totalFrames = total_frames env frameRate in
      case decodeAudioData env of
        Some message \<Rightarrow> ([DecodeAudioData], Some message)
      | None \<Rightarrow>
          (let setup =
                 [DecodeAudioData, CreateMuxer, ConfigureVideoEncoder, ConfigureAudioEncoder,
                  SetRenderMessage ''Encoding audio...'', EncodeAudio, FlushAudioEncoder,
                  PauseAudio, SetAudioCurrentTime 0]
           in if \<not> getContext env then (setup, Some ''Could not get canvas context'')
              else
                (let rawDataArray = replicate (frequencyBinCount env) 0;
                     smoothedDataArray = replicate (frequencyBinCount env) 0;
                     frames = render_frames env frameRate totalFrames 0
                                (rawDataArray, smoothedDataArray);
                     started = setup
                       @ (if enabled (particleConfig env) then [InitParticles] else [])
                       @ [SetRenderMessage ''Rendering video frames...'']
                       @ fst frames
                 in case snd frames of
                      Some message \<Rightarrow> (started, Some message)
                    | None \<Rightarrow>
                        (started
                         @ [SetRenderMessage ''Finalizing video...'', FlushVideoEncoder,
                            SetRenderMessage ''Packing MP4 file...'', FinalizeMuxer,
                            Download (''Success visualizer - ''
                              @ (if projectName env = [] then ''video'' else projectName env)
                              @ ''.mp4'')],
                         None))))"

text \<open>The \<open>catch\<close> clause.\<close>

definition render_catch :: "string option \<Rightarrow> effect list" where
  "render_catch thrown =
     (case thrown of
        None \<Rightarrow> []
      | Some message \<Rightarrow>
          [ConsoleError ''Rendering failed:'',
           SetError (Some (''Rendering failed: '' @ message @ ''. Check console for details.''))])"

definition frameRate :: real where
  "frameRate = 30"

definition handleRenderVideo :: "render_env \<Rightarrow> effect list" where
  "handleRenderVideo env =
     (if \<not> canvasRef_current env \<or> \<not> audioRef_current env \<or> \<not> audioFile env
      then [SetError (Some ''Please upload audio and any images before rendering.'')]
      else if \<not> analyserRef_current env
      then [SetError (Some ''Audio analyser not ready. Please try reloading.'')]
      else if isRendering env then []
      else
        [SetIsPlaying False, Wait 100, SetIsRendering True, SetRenderProgress (Num 0),
         SetRenderMessage ''Initializing render...'', SetError None]
        @ fst (render_try env frameRate)
        @ render_catch (snd (render_try env frameRate))
        @ [CloseAudioContext, SetIsRendering False, SetRenderProgress (Num 0),
           SetRenderMessage '''', SetAudioCurrentTime 0, SetCurrentTime 0])"

text \<open>
  The \<open>error\<close> state of the component after a list of calls, and what the component
  renders for it: \<open>{error && <div ...>Error: {error}</div>}\<close>, the red banner.
\<close>

fun error_after :: "string option \<Rightarrow> effect list \<Rightarrow> string option" where
  "error_after e [] = e"
| "error_after e (SetError e' # es) = error_after e' es"
| "error_after e (_ # es) = error_after e es"

definition error_banner :: "string option \<Rightarrow> string option" where
  "error_banner e =
     (case e of None \<Rightarrow> None | Some m \<Rightarrow> if m = [] then None else Some (''Error: '' @ m))"

text \<open>
  The timestamps at which a list of calls samples the spectrum, the timestamps of
  the frames it hands to the video encoder, and the file names it offers for
  download, each in order.
\<close>

fun sample_times :: "effect list \<Rightarrow> real list" where
  "sample_times [] = []"
| "sample_times (SampleSpectrum t # es) = t # sample_times es"
| "sample_times (_ # es) = sample_times es"

fun encoded_frames :: "effect list \<Rightarrow> real list" where
  "encoded_frames [] = []"
| "encoded_frames (EncodeVideoFrame t # es) = t # encoded_frames es"
| "encoded_frames (_ # es) = encoded_frames es"

fun downloads :: "effect list \<Rightarrow> string list" where
  "downloads [] = []"
| "downloads (Download name # es) = name # downloads es"
| "downloads (_ # es) = downloads es"

text \<open>
  Environments for concrete evaluations: two seconds of audio, the initial
  configurations of the application, an analyser that yields silence; the Cancel
  button is never pressed, pressed before the first frame, or pressed after ten
  frames.
\<close>

definition demo_env :: "(nat \<Rightarrow> bool) \<Rightarrow> render_env" where
  "demo_env running =
     \<lparr>canvasRef_current = True, audioRef_current = True, audioFile = True,
      analyserRef_current = True, isRendering = False, duration = 2,
      decodeAudioData = None, getContext = True, isRenderingRef_current = running,
      getByteFrequencyData = (\<lambda>t. replicate 128 0), frequencyBinCount = 128,
      visualizerConfig = demo_visualizer, particleConfig = demo_config,
      renderSpeed = 2, projectName = ''My Project''\<rparr>"

section \<open>Properties of the rounding to doubles\<close>

lemma pow2_powr: "pow2 k = 2 powr (real_of_int k)"
  by (simp add: pow2_def powr_real_of_int inverse_eq_divide)

lemma pow2_pos: "0 < pow2 k"
  by (simp add: pow2_powr)

lemma pow2_add: "pow2 (a + b) = pow2 a * pow2 b"
  by (simp add: pow2_powr powr_add)

lemma pow2_less_iff: "pow2 a < pow2 b \<longleftrightarrow> a < b"
  by (simp add: pow2_powr)

lemma pow2_le_iff: "pow2 a \<le> pow2 b \<longleftrightarrow> a \<le> b"
  by (simp add: pow2_powr)

lemma pow2_nat: "pow2 (int n) = 2 ^ n"
  by (simp add: pow2_def)

lemma pow2_neg_nat: "pow2 (- int n) = 1 / 2 ^ n"
  by (simp add: pow2_powr powr_minus_divide powr_realpow)

lemma binade_bounds:
  assumes "x \<noteq> 0"
  shows "pow2 (binade x) \<le> \<bar>x\<bar> \<and> \<bar>x\<bar> < pow2 (binade x + 1)"
proof (cases "1 \<le> \<bar>x\<bar>")
  case True
  let ?n = "\<lfloor>\<bar>x\<bar>\<rfloor>"
  have n1: "1 \<le> ?n" using True by simp
  then have npos: "0 < ?n" by simp
  have b: "2 ^ nat (bitlen ?n - 1) \<le> ?n" "?n < 2 ^ nat (bitlen ?n)"
    using bitlen_bounds [OF npos] by simp_all
  have bl: "1 \<le> bitlen ?n"
    using npos by (simp add: bitlen_alt_def)
  have e: "binade x = bitlen ?n - 1" using True by (simp add: binade_def)
  have "pow2 (bitlen ?n - 1) = 2 ^ nat (bitlen ?n - 1)" using bl by (simp add: pow2_def)
  also have "\<dots> = of_int (2 ^ nat (bitlen ?n - 1))" by simp
  also have "\<dots> \<le> of_int ?n" using b(1) by (simp only: of_int_le_iff)
  also have "\<dots> \<le> \<bar>x\<bar>" by simp
  finally have lo: "pow2 (binade x) \<le> \<bar>x\<bar>" unfolding e .
  have "?n + 1 \<le> 2 ^ nat (bitlen ?n)" using b(2) by simp
  then have "real_of_int (?n + 1) \<le> real_of_int (2 ^ nat (bitlen ?n))"
    by (simp only: of_int_le_iff)
  then have "real_of_int ?n + 1 \<le> 2 ^ nat (bitlen ?n)" by simp
  moreover have "\<bar>x\<bar> < real_of_int ?n + 1" by linarith
  ultimately have "\<bar>x\<bar> < 2 ^ nat (bitlen ?n)" by linarith
  moreover have "pow2 (bitlen ?n - 1 + 1) = 2 ^ nat (bitlen ?n)" using bl by (simp add: pow2_def)
  ultimately have hi: "\<bar>x\<bar> < pow2 (binade x + 1)" unfolding e by simp
  show ?thesis using lo hi by simp
next
  case False
  let ?a = "\<bar>x\<bar>"
  let ?c = "\<lceil>1 / ?a\<rceil>"
  let ?b = "bitlen (?c - 1)"
  have a0: "0 < ?a" using assms by simp
  have a1: "?a < 1" using False by simp
  have inv: "1 < 1 / ?a" using a0 a1 by simp
  then have c2: "2 \<le> ?c" by linarith
  then have cpos: "0 < ?c - 1" by simp
  have b: "2 ^ nat (?b - 1) \<le> ?c - 1" "?c - 1 < 2 ^ nat ?b"
    using bitlen_bounds [OF cpos] by simp_all
  have bl: "1 \<le> ?b" using cpos by (simp add: bitlen_alt_def)
  have e: "binade x = - ?b" using False by (simp add: binade_def)
  have "?c \<le> 2 ^ nat ?b" using b(2) by simp
  then have "real_of_int ?c \<le> real_of_int (2 ^ nat ?b)" by (simp only: of_int_le_iff)
  moreover have "real_of_int (2 ^ nat ?b) = 2 ^ nat ?b" by simp
  moreover have "1 / ?a \<le> real_of_int ?c" by (rule le_of_int_ceiling)
  ultimately have "1 / ?a \<le> 2 ^ nat ?b" by linarith
  then have "1 \<le> 2 ^ nat ?b * ?a" using a0 by (simp add: field_simps)
  then have "1 / 2 ^ nat ?b \<le> ?a" by (simp add: field_simps)
  moreover have "pow2 (- ?b) = 1 / 2 ^ nat ?b" using bl by (simp add: pow2_def)
  ultimately have lo: "pow2 (binade x) \<le> ?a" unfolding e by simp
  have "real_of_int (2 ^ nat (?b - 1)) \<le> real_of_int (?c - 1)"
    using b(1) by (simp only: of_int_le_iff)
  moreover have "real_of_int (2 ^ nat (?b - 1)) = 2 ^ nat (?b - 1)" by simp
  moreover have "real_of_int (?c - 1) < 1 / ?a" by linarith
  ultimately have "2 ^ nat (?b - 1) < 1 / ?a" by linarith
  then have "2 ^ nat (?b - 1) * ?a < 1" using a0 by (simp add: field_simps)
  then have "?a < 1 / 2 ^ nat (?b - 1)" by (simp add: field_simps)
  moreover have "pow2 (- ?b + 1) = 1 / 2 ^ nat (?b - 1)"
    using bl by (simp add: pow2_def)
  ultimately have hi: "?a < pow2 (binade x + 1)" unfolding e by simp
  show ?thesis using lo hi by simp
qed

lemma binade_less:
  assumes "x \<noteq> 0" and "\<bar>x\<bar> < pow2 n"
  shows "binade x < n"
proof -
  have "pow2 (binade x) < pow2 n"
    using binade_bounds [OF assms(1)] assms(2) by linarith
  then show ?thesis by (simp only: pow2_less_iff)
qed

lemma round_half_even_int: "round_half_even (of_int k) = k"
  by (simp add: round_half_even_def)

lemma round_half_even_ge:
  assumes "of_int k \<le> m"
  shows "k \<le> round_half_even m"
proof -
  have "k \<le> \<lfloor>m\<rfloor>" using assms by (simp add: le_floor_iff)
  then show ?thesis by (simp add: round_half_even_def Let_def)
qed

lemma round_half_even_le:
  assumes "m \<le> of_int k"
  shows "round_half_even m \<le> k"
proof (cases "m = of_int k")
  case True
  then show ?thesis by (simp add: round_half_even_int)
next
  case False
  then have "m < of_int k" using assms by simp
  then have "\<lfloor>m\<rfloor> < k" by (simp add: floor_less_iff)
  then show ?thesis by (simp add: round_half_even_def Let_def)
qed


lemma double_ulp_grid:
  assumes "x \<noteq> 0" and "binade x + int j \<le> 52" and "j \<le> 1074"
  obtains m where "j \<le> m" and "double_ulp x = 1 / 2 ^ m"
proof -
  let ?m = "nat (52 - max (binade x) (- 1022))"
  have "max (binade x) (- 1022) - 52 = - int ?m" using assms(2) by (simp add: max_def)
  then have "double_ulp x = 1 / 2 ^ ?m"
    unfolding double_ulp_def by (simp only: pow2_neg_nat)
  moreover have "j \<le> ?m" using assms(2,3) by (cases "binade x \<le> - 1022") simp_all
  ultimately show ?thesis using that by blast
qed

lemma round_double_nonneg:
  assumes "0 \<le> x"
  shows "0 \<le> round_double x"
proof (cases "x = 0")
  case True
  then show ?thesis by (simp add: round_double_def)
next
  case False
  have u: "0 < double_ulp x" by (simp add: double_ulp_def pow2_pos)
  then have "real_of_int 0 \<le> x / double_ulp x" using assms by simp
  then have "0 \<le> round_half_even (x / double_ulp x)" by (rule round_half_even_ge)
  then show ?thesis using False u by (simp add: round_double_def)
qed

lemma round_double_ge_grid:
  assumes "real_of_int k / 2 ^ j \<le> x" and "x \<noteq> 0" and "binade x + int j \<le> 52"
    and "j \<le> 1074"
  shows "real_of_int k / 2 ^ j \<le> round_double x"
proof -
  obtain m where m: "j \<le> m" and u: "double_ulp x = 1 / 2 ^ m"
    using double_ulp_grid [OF assms(2,3,4)] by blast
  have split: "(2::real) ^ m = 2 ^ (m - j) * 2 ^ j"
    using m by (simp add: power_add [symmetric])
  have "real_of_int (k * 2 ^ (m - j)) = real_of_int k / 2 ^ j * 2 ^ m"
    by (simp add: split)
  also have "\<dots> \<le> x * 2 ^ m" using assms(1) by (intro mult_right_mono) simp_all
  also have "\<dots> = x / double_ulp x" by (simp add: u)
  finally have "k * 2 ^ (m - j) \<le> round_half_even (x / double_ulp x)"
    by (rule round_half_even_ge)
  then have "real_of_int (k * 2 ^ (m - j)) \<le> real_of_int (round_half_even (x / double_ulp x))"
    by (simp only: of_int_le_iff)
  then have "real_of_int (k * 2 ^ (m - j)) / 2 ^ m
               \<le> real_of_int (round_half_even (x / double_ulp x)) / 2 ^ m"
    by (simp add: divide_right_mono)
  moreover have "real_of_int (k * 2 ^ (m - j)) / 2 ^ m = real_of_int k / 2 ^ j"
    by (simp add: split)
  ultimately show ?thesis using assms(2) by (simp add: round_double_def u)
qed

lemma round_double_le_grid:
  assumes "x \<le> real_of_int k / 2 ^ j" and "x \<noteq> 0" and "binade x + int j \<le> 52"
    and "j \<le> 1074"
  shows "round_double x \<le> real_of_int k / 2 ^ j"
proof -
  obtain m where m: "j \<le> m" and u: "double_ulp x = 1 / 2 ^ m"
    using double_ulp_grid [OF assms(2,3,4)] by blast
  have split: "(2::real) ^ m = 2 ^ (m - j) * 2 ^ j"
    using m by (simp add: power_add [symmetric])
  have "x / double_ulp x = x * 2 ^ m" by (simp add: u)
  also have "\<dots> \<le> real_of_int k / 2 ^ j * 2 ^ m"
    using assms(1) by (intro mult_right_mono) simp_all
  also have "\<dots> = real_of_int (k * 2 ^ (m - j))" by (simp add: split)
  finally have "round_half_even (x / double_ulp x) \<le> k * 2 ^ (m - j)"
    by (rule round_half_even_le)
  then have "real_of_int (round_half_even (x / double_ulp x)) \<le> real_of_int (k * 2 ^ (m - j))"
    by (simp only: of_int_le_iff)
  then have "real_of_int (round_half_even (x / double_ulp x)) / 2 ^ m
               \<le> real_of_int (k * 2 ^ (m - j)) / 2 ^ m"
    by (simp add: divide_right_mono)
  moreover have "real_of_int (k * 2 ^ (m - j)) / 2 ^ m = real_of_int k / 2 ^ j"
    by (simp add: split)
  ultimately show ?thesis using assms(2) by (simp add: round_double_def u)
qed

lemma round_double_grid:
  assumes "\<bar>real_of_int k / 2 ^ j\<bar> < pow2 (53 - int j)" and "j \<le> 1074"
  shows "round_double (real_of_int k / 2 ^ j) = real_of_int k / 2 ^ j"
proof (cases "real_of_int k / 2 ^ j = 0")
  case True
  then show ?thesis by (simp add: round_double_def)
next
  case False
  have "binade (real_of_int k / 2 ^ j) < 53 - int j"
    by (rule binade_less [OF False assms(1)])
  then have e: "binade (real_of_int k / 2 ^ j) + int j \<le> 52" by simp
  show ?thesis
    using round_double_ge_grid [OF order_refl False e assms(2)]
      round_double_le_grid [OF order_refl False e assms(2)]
    by (rule order_antisym [rotated])
qed

lemma round_double_int:
  assumes "\<bar>k\<bar> < 2 ^ 53"
  shows "round_double (real_of_int k) = real_of_int k"
proof -
  have "\<bar>real_of_int k\<bar> < 2 ^ 53"
    using assms by (metis of_int_abs of_int_less_iff of_int_numeral of_int_power)
  then have "\<bar>real_of_int k / 2 ^ 0\<bar> < pow2 (53 - int 0)" by (simp add: pow2_def)
  from round_double_grid [OF this] show ?thesis by simp
qed

lemma round_double_half:
  assumes "\<bar>k\<bar> < 2 ^ 53"
  shows "round_double (real_of_int k / 2) = real_of_int k / 2"
proof -
  have "\<bar>real_of_int k\<bar> < 2 ^ 53"
    using assms by (metis of_int_abs of_int_less_iff of_int_numeral of_int_power)
  then have "\<bar>real_of_int k / 2 ^ 1\<bar> < pow2 (53 - int 1)" by (simp add: pow2_def)
  from round_double_grid [OF this] show ?thesis by simp
qed

lemma floor_round_double:
  assumes "0 \<le> x" and "x < 2 ^ 53"
  shows "\<lfloor>x\<rfloor> \<le> \<lfloor>round_double x\<rfloor> \<and> \<lfloor>round_double x\<rfloor> \<le> \<lfloor>x\<rfloor> + 1"
proof (cases "x = 0")
  case True
  then show ?thesis by (simp add: round_double_def)
next
  case False
  have "\<bar>x\<bar> < pow2 53" using assms by (simp add: pow2_def)
  then have "binade x < 53" by (rule binade_less [OF False])
  then have e: "binade x + int 0 \<le> 52" by simp
  have "real_of_int \<lfloor>x\<rfloor> / 2 ^ 0 \<le> x" by simp
  from round_double_ge_grid [OF this False e]
  have lo: "real_of_int \<lfloor>x\<rfloor> \<le> round_double x" by simp
  have "x \<le> real_of_int (\<lfloor>x\<rfloor> + 1) / 2 ^ 0" by simp
  from round_double_le_grid [OF this False e]
  have hi: "round_double x \<le> real_of_int (\<lfloor>x\<rfloor> + 1)" by simp
  have "\<lfloor>x\<rfloor> \<le> \<lfloor>round_double x\<rfloor>" using lo by (simp only: le_floor_iff)
  moreover have "\<lfloor>round_double x\<rfloor> \<le> \<lfloor>x\<rfloor> + 1"
    using hi by (metis floor_mono floor_of_int)
  ultimately show ?thesis by simp
qed

text \<open>
  Two products as the program computes them: 60 for two seconds at 30 frames per
  second, and 21 for the double nearest to 0.7 seconds, whose exact product with 30
  is below 21.
\<close>

lemma round_double_60: "round_double 60 = 60"
  by (simp add: round_double_def double_ulp_def binade_def compute_bitlen pow2_def
        round_half_even_def)

lemma round_double_21:
  "round_double (3152519739159347 / 4503599627370496 * 30) = 21
   \<and> \<lfloor>3152519739159347 / 4503599627370496 * (30 :: real)\<rfloor> = 20"
  by (simp add: round_double_def double_ulp_def binade_def compute_bitlen pow2_def
        round_half_even_def Let_def)

section \<open>Properties of the feature extractor\<close>

lemma bassEnd_div: "bassEnd a = length a div 10"
proof -
  have "real (length a) * 0.1 = real (length a) / real 10" by simp
  then have "\<lfloor>real (length a) * 0.1\<rfloor> = int (length a div 10)"
    by (simp only: floor_divide_of_nat_eq)
  then show ?thesis by (simp add: bassEnd_def)
qed

lemma midsEnd_div: "midsEnd a = (4 * length a) div 10"
proof -
  have "real (length a) * 0.4 = real (4 * length a) / real 10" by simp
  then have "\<lfloor>real (length a) * 0.4\<rfloor> = int ((4 * length a) div 10)"
    by (simp only: floor_divide_of_nat_eq)
  then show ?thesis by (simp add: midsEnd_def)
qed

lemma bassEnd_le_midsEnd: "bassEnd a \<le> midsEnd a"
  by (simp add: bassEnd_div midsEnd_div div_le_mono)

lemma midsEnd_le_length: "midsEnd a \<le> length a"
  by (simp add: midsEnd_div)

lemma sum_loop_in_range:
  "hi \<le> length a \<Longrightarrow>
   sum_loop a i hi (Num s) = Num (s + (\<Sum>k = i..<hi. real (unat (a ! k))))"
proof (induction a i hi "Num s" arbitrary: s rule: sum_loop.induct)
  case (1 a i hi)
  show ?case
  proof (cases "i < hi")
    case True
    then have "i < length a" using "1.prems" by simp
    then have step: "js_add (Num s) (read_u8 a i) = Num (s + real (unat (a ! i)))"
      by (simp add: read_u8_def)
    have "sum_loop a i hi (Num s) = sum_loop a (Suc i) hi (Num (s + real (unat (a ! i))))"
      using True step by (simp add: sum_loop.simps [of a i])
    also have "\<dots> = Num (s + real (unat (a ! i)) + (\<Sum>k = Suc i..<hi. real (unat (a ! k))))"
      using "1.hyps" [OF True step] "1.prems" by simp
    also have "\<dots> = Num (s + (\<Sum>k = i..<hi. real (unat (a ! k))))"
      using True by (simp add: sum.atLeast_Suc_lessThan add.assoc)
    finally show ?thesis .
  next
    case False
    then show ?thesis by (simp add: sum_loop.simps [of a i])
  qed
qed

lemma band_quotient:
  assumes "hi \<le> length a" and "lo \<le> hi" and "d = real hi - real lo"
  shows "js_div (sum_loop a lo hi (Num 0)) (Num d) =
           (if lo = hi then NaN else Num (spec_mean a lo hi))"
proof (cases "lo = hi")
  case True
  then show ?thesis
    using assms(3) by (simp add: sum_loop.simps [of a hi])
next
  case False
  with assms(2) have lt: "lo < hi" by simp
  then have "d = real (hi - lo)" using assms(3) by simp
  moreover have "real (hi - lo) \<noteq> 0" using lt by simp
  ultimately show ?thesis
    using lt unfolding sum_loop_in_range [OF assms(1)]
    by (simp add: spec_mean_def)
qed

lemma spec_mean_empty: "spec_mean a lo lo = 0"
  by (simp add: spec_mean_def)

lemma band_mean:
  assumes "hi \<le> length a" and "lo \<le> hi" and "d = real hi - real lo"
  shows "(if isNaN (js_div (sum_loop a lo hi (Num 0)) (Num d)) then Num 0
          else js_div (sum_loop a lo hi (Num 0)) (Num d)) = Num (spec_mean a lo hi)"
  unfolding band_quotient [OF assms] by (simp add: spec_mean_empty)

lemma getAudioAverages_Some:
  "getAudioAverages (Some S) =
     \<lparr>bass = Num (spec_mean S 0 (bassEnd S)),
      mids = Num (spec_mean S (bassEnd S) (midsEnd S)),
      overall = Num (spec_mean S 0 (length S))\<rparr>"
proof (cases "length S = 0")
  case True
  then show ?thesis
    by (simp add: getAudioAverages_def zero_averages_def spec_mean_def bassEnd_div midsEnd_div)
next
  case False
  have le: "bassEnd S \<le> length S"
    using bassEnd_le_midsEnd [of S] midsEnd_le_length [of S] by simp
  have b: "(if isNaN (js_div (sum_loop S 0 (bassEnd S) (Num 0)) (Num (real (bassEnd S))))
            then Num 0 else js_div (sum_loop S 0 (bassEnd S) (Num 0)) (Num (real (bassEnd S))))
           = Num (spec_mean S 0 (bassEnd S))"
    by (rule band_mean [OF le]) simp_all
  have m: "(if isNaN (js_div (sum_loop S (bassEnd S) (midsEnd S) (Num 0))
                 (Num (real (midsEnd S) - real (bassEnd S))))
            then Num 0
            else js_div (sum_loop S (bassEnd S) (midsEnd S) (Num 0))
                 (Num (real (midsEnd S) - real (bassEnd S))))
           = Num (spec_mean S (bassEnd S) (midsEnd S))"
    by (rule band_mean [OF midsEnd_le_length bassEnd_le_midsEnd]) simp
  have v: "(if isNaN (js_div (sum_loop S 0 (length S) (Num 0)) (Num (real (length S))))
            then Num 0 else js_div (sum_loop S 0 (length S) (Num 0)) (Num (real (length S))))
           = Num (spec_mean S 0 (length S))"
    by (rule band_mean) simp_all
  show ?thesis
    using False unfolding getAudioAverages_def Let_def option.case b m v by simp
qed

lemma byte_le_255: "real (unat (w :: 8 word)) \<le> 255"
proof -
  have "unat w < 2 ^ 8" using unsigned_less [of w] by simp
  then have "unat w \<le> 255" by simp
  then have "real (unat w) \<le> real 255" by (rule of_nat_mono)
  then show ?thesis by simp
qed

lemma spec_mean_bounds:
  assumes "hi \<le> length S"
  shows "0 \<le> spec_mean S lo hi \<and> spec_mean S lo hi \<le> 255"
proof (cases "hi \<le> lo")
  case True
  then show ?thesis by (simp add: spec_mean_def)
next
  case False
  then have lt: "lo < hi" by simp
  have "(\<Sum>k = lo..<hi. real (unat (S ! k))) \<le> (\<Sum>k = lo..<hi. 255)"
    by (rule sum_mono) (rule byte_le_255)
  then have up: "(\<Sum>k = lo..<hi. real (unat (S ! k))) \<le> 255 * real (hi - lo)"
    by simp
  have low: "0 \<le> (\<Sum>k = lo..<hi. real (unat (S ! k)))"
    by (rule sum_nonneg) (rule of_nat_0_le_iff)
  have pos: "0 < real (hi - lo)" using lt by simp
  show ?thesis
    using low up pos lt by (simp add: spec_mean_def divide_le_eq)
qed

lemma spec_mean_zero:
  assumes "\<forall>x \<in> set S. x = 0" and "hi \<le> length S"
  shows "spec_mean S lo hi = 0"
proof -
  have "S ! k = 0" if "k \<in> {lo..<hi}" for k
    using that assms by (simp add: nth_mem)
  then have "(\<Sum>k = lo..<hi. real (unat (S ! k))) = 0"
    by simp
  then show ?thesis by (simp add: spec_mean_def)
qed

text \<open>
  C7.  For every spectrum \<open>S\<close> of length \<open>N\<close> the feature extractor returns
  bass = mean of \<open>S\<close> over \<open>[0, \<lfloor>0.1 N\<rfloor>)\<close>, mids = mean of \<open>S\<close> over
  \<open>[\<lfloor>0.1 N\<rfloor>, \<lfloor>0.4 N\<rfloor>)\<close> and overall = mean of \<open>S\<close> over \<open>[0, N)\<close>; every result
  is an ordinary number, and it is \<open>0\<close> where its range is empty, where \<open>N = 0\<close> and
  where there is no spectrum at all.
\<close>

theorem getAudioAverages_band_means:
  "getAudioAverages (Some S) =
     \<lparr>bass = Num (spec_mean S 0 (nat \<lfloor>0.1 * real (length S)\<rfloor>)),
      mids = Num (spec_mean S (nat \<lfloor>0.1 * real (length S)\<rfloor>) (nat \<lfloor>0.4 * real (length S)\<rfloor>)),
      overall = Num (spec_mean S 0 (length S))\<rparr>
   \<and> (nat \<lfloor>0.1 * real (length S)\<rfloor> = 0 \<longrightarrow> bass (getAudioAverages (Some S)) = Num 0)
   \<and> (nat \<lfloor>0.4 * real (length S)\<rfloor> \<le> nat \<lfloor>0.1 * real (length S)\<rfloor> \<longrightarrow>
        mids (getAudioAverages (Some S)) = Num 0)
   \<and> (length S = 0 \<longrightarrow>
        getAudioAverages (Some S) = \<lparr>bass = Num 0, mids = Num 0, overall = Num 0\<rparr>)
   \<and> getAudioAverages None = \<lparr>bass = Num 0, mids = Num 0, overall = Num 0\<rparr>"
proof -
  have b: "nat \<lfloor>0.1 * real (length S)\<rfloor> = bassEnd S"
    by (simp add: bassEnd_def mult.commute)
  have m: "nat \<lfloor>0.4 * real (length S)\<rfloor> = midsEnd S"
    by (simp add: midsEnd_def mult.commute)
  have none: "getAudioAverages None = \<lparr>bass = Num 0, mids = Num 0, overall = Num 0\<rparr>"
    by (simp add: getAudioAverages_def zero_averages_def)
  have empty: "length S = 0 \<longrightarrow>
      getAudioAverages (Some S) = \<lparr>bass = Num 0, mids = Num 0, overall = Num 0\<rparr>"
    by (simp add: getAudioAverages_def zero_averages_def)
  show ?thesis
    unfolding b m getAudioAverages_Some using none empty
    by (simp add: spec_mean_def getAudioAverages_Some)
qed

theorem getAudioAverages_band_means_witness:
  "getAudioAverages (Some [5, 7, 9]) = \<lparr>bass = Num 0, mids = Num 5, overall = Num 7\<rparr>
   \<and> getAudioAverages (Some []) = \<lparr>bass = Num 0, mids = Num 0, overall = Num 0\<rparr>"
proof -
  have "getAudioAverages (Some [5, 7, 9]) = \<lparr>bass = Num 0, mids = Num 5, overall = Num 7\<rparr>"
    using getAudioAverages_band_means [of "[5, 7, 9]"]
    by (simp add: spec_mean_def)
  moreover have "getAudioAverages (Some []) = \<lparr>bass = Num 0, mids = Num 0, overall = Num 0\<rparr>"
    using getAudioAverages_band_means [of "[]"] by (simp add: spec_mean_def)
  ultimately show ?thesis by simp
qed

text \<open>
  C8.  For every spectrum (its magnitudes are bytes, hence in \<open>[0, 255]\<close>), and also
  for no spectrum, each of bass, mids and overall is an ordinary number in
  \<open>[0, 255]\<close>; for the all-zero spectrum all three are \<open>0\<close>.
\<close>

theorem getAudioAverages_in_byte_range:
  "(\<exists>b m v. getAudioAverages A = \<lparr>bass = Num b, mids = Num m, overall = Num v\<rparr>
      \<and> 0 \<le> b \<and> b \<le> 255 \<and> 0 \<le> m \<and> m \<le> 255 \<and> 0 \<le> v \<and> v \<le> 255)
   \<and> ((\<forall>x \<in> set S. x = 0) \<longrightarrow>
        getAudioAverages (Some S) = \<lparr>bass = Num 0, mids = Num 0, overall = Num 0\<rparr>)"
proof
  show "\<exists>b m v. getAudioAverages A = \<lparr>bass = Num b, mids = Num m, overall = Num v\<rparr>
      \<and> 0 \<le> b \<and> b \<le> 255 \<and> 0 \<le> m \<and> m \<le> 255 \<and> 0 \<le> v \<and> v \<le> 255"
  proof (cases A)
    case None
    then show ?thesis
      by (simp add: getAudioAverages_def zero_averages_def)
  next
    case (Some T)
    have le: "bassEnd T \<le> length T"
      using bassEnd_le_midsEnd [of T] midsEnd_le_length [of T] by simp
    show ?thesis
      unfolding Some getAudioAverages_Some
      using spec_mean_bounds [OF le, of 0]
        spec_mean_bounds [OF midsEnd_le_length, of T "bassEnd T"]
        spec_mean_bounds [of "length T" T 0]
      by simp
  qed
next
  show "(\<forall>x \<in> set S. x = 0) \<longrightarrow>
        getAudioAverages (Some S) = \<lparr>bass = Num 0, mids = Num 0, overall = Num 0\<rparr>"
  proof
    assume z: "\<forall>x \<in> set S. x = 0"
    have le: "bassEnd S \<le> length S"
      using bassEnd_le_midsEnd [of S] midsEnd_le_length [of S] by simp
    show "getAudioAverages (Some S) = \<lparr>bass = Num 0, mids = Num 0, overall = Num 0\<rparr>"
      unfolding getAudioAverages_Some
      using spec_mean_zero [OF z le] spec_mean_zero [OF z midsEnd_le_length]
        spec_mean_zero [OF z, of "length S"]
      by simp
  qed
qed

theorem getAudioAverages_in_byte_range_witness:
  "getAudioAverages (Some [0, 0, 0, 0]) = \<lparr>bass = Num 0, mids = Num 0, overall = Num 0\<rparr>
   \<and> (\<exists>b m v. getAudioAverages (Some [255, 255, 255]) =
          \<lparr>bass = Num b, mids = Num m, overall = Num v\<rparr>
        \<and> 0 \<le> b \<and> b \<le> 255 \<and> 0 \<le> m \<and> m \<le> 255 \<and> 0 \<le> v \<and> v \<le> 255)"
  using getAudioAverages_in_byte_range [of "Some [255, 255, 255]" "[0, 0, 0, 0]"]
  by simp

section \<open>Properties of the particle simulator\<close>

lemma update_particle_spec:
  "m = 1 + 0.3 * bi \<Longrightarrow>
   update_particle config width height m rnd p k =
     (if spec_exits config width height (spec_moved config bi p)
      then (spec_respawn config width height (rnd k) (spec_moved config bi p), Suc k)
      else (spec_moved config bi p, k))"
  by (cases "direction config")
     (simp_all add: update_particle_def spec_exits_def spec_moved_def spec_respawn_def
        Let_def mult.commute)

lemma update_loop_length:
  "length (fst (update_loop config width height m rnd ps k)) = length ps"
  by (induction ps arbitrary: k) (simp_all add: split_beta Let_def)

lemma update_loop_cursor:
  "m = 1 + 0.3 * bi \<Longrightarrow>
   snd (update_loop config width height m rnd ps k) =
     k + spec_crossings config width height bi ps"
  by (induction ps arbitrary: k)
     (simp_all add: split_beta Let_def update_particle_spec spec_crossings_def)

lemma update_loop_nth:
  "m = 1 + 0.3 * bi \<Longrightarrow> i < length ps \<Longrightarrow>
   fst (update_loop config width height m rnd ps k) ! i =
     (if spec_exits config width height (spec_moved config bi (ps ! i))
      then spec_respawn config width height
             (rnd (k + spec_crossings config width height bi (take i ps)))
             (spec_moved config bi (ps ! i))
      else spec_moved config bi (ps ! i))"
proof (induction ps arbitrary: k i)
  case Nil
  then show ?case by simp
next
  case (Cons p ps)
  note m = Cons.prems(1)
  show ?case
  proof (cases i)
    case 0
    then show ?thesis
      by (simp add: split_beta Let_def update_particle_spec [OF m] spec_crossings_def)
  next
    case (Suc j)
    then have j: "j < length ps" using Cons.prems by simp
    show ?thesis
      using Cons.IH [OF m j] Suc
      by (simp add: split_beta Let_def update_particle_spec [OF m] spec_crossings_def)
  qed
qed

text \<open>The bass intensity is a finite number in \<open>[0, 1]\<close>, so a tick is always defined.\<close>

lemma bassIntensity_unit:
  "\<exists>bi. bassIntensity A = Num bi \<and> 0 \<le> bi \<and> bi \<le> 1"
proof (cases A)
  case None
  then show ?thesis
    by (simp add: bassIntensity_def getAudioAverages_def zero_averages_def)
next
  case (Some T)
  have le: "bassEnd T \<le> length T"
    using bassEnd_le_midsEnd [of T] midsEnd_le_length [of T] by simp
  have "bassIntensity (Some T) = Num (spec_mean T 0 (bassEnd T) / 255)"
    by (simp add: bassIntensity_def getAudioAverages_Some)
  moreover have "0 \<le> spec_mean T 0 (bassEnd T) / 255 \<and> spec_mean T 0 (bassEnd T) / 255 \<le> 1"
    using spec_mean_bounds [OF le, of 0] by simp
  ultimately show ?thesis unfolding Some by blast
qed

lemma particle_tick_total:
  "\<exists>st'. particle_tick config width height rnd A st = Some st'"
  using bassIntensity_unit [of A] by (auto simp add: particle_tick_def)

text \<open>
  C5.  The bass intensity \<open>bass / 255\<close> that the callers pass is in \<open>[0, 1]\<close>.  One
  tick of \<open>updateParticles\<close> keeps the number of particles, moves every particle by
  velocity \<times> speed \<times> (1 + 0.3 \<times> bassIntensity), and respawns exactly the particles
  that exit: each of them once, at the opposite edge, with its own fresh random
  value (the next one of the stream) for the perpendicular coordinate; the other
  particles draw no random value, so the draws of a tick are as many as the
  crossings.
\<close>

theorem updateParticles_respawn_once:
  "(\<exists>bi. bassIntensity A = Num bi \<and> 0 \<le> bi \<and> bi \<le> 1)
   \<and> length (fst (updateParticles ps config width height bi rnd k)) = length ps
   \<and> snd (updateParticles ps config width height bi rnd k) =
       k + spec_crossings config width height bi ps
   \<and> (\<forall>i < length ps.
        fst (updateParticles ps config width height bi rnd k) ! i =
          (if spec_exits config width height (spec_moved config bi (ps ! i))
           then spec_respawn config width height
                  (rnd (k + spec_crossings config width height bi (take i ps)))
                  (spec_moved config bi (ps ! i))
           else spec_moved config bi (ps ! i)))"
proof -
  have m: "1 + bi * 0.3 = 1 + 0.3 * bi" by simp
  show ?thesis
    unfolding updateParticles_def Let_def
    using bassIntensity_unit [of A] update_loop_length update_loop_cursor [OF m]
      update_loop_nth [OF m]
    by simp
qed

theorem updateParticles_respawn_once_witness:
  "updateParticles
     [\<lparr>p_x = 10, p_y = 104, p_vx = 0, p_vy = 2\<rparr>, \<lparr>p_x = 20, p_y = 50, p_vx = 0, p_vy = 1\<rparr>]
     demo_config 200 100 0 (\<lambda>n. 1 / 2) 7
   = ([\<lparr>p_x = 100, p_y = - 5, p_vx = 0, p_vy = 2\<rparr>, \<lparr>p_x = 20, p_y = 51, p_vx = 0, p_vy = 1\<rparr>], 8)"
proof -
  let ?ps = "[\<lparr>p_x = 10, p_y = 104, p_vx = 0, p_vy = 2\<rparr>, \<lparr>p_x = 20, p_y = 50, p_vx = 0, p_vy = 1\<rparr>]"
  let ?r = "updateParticles ?ps demo_config 200 100 0 (\<lambda>n. 1 / 2) 7"
  note t = updateParticles_respawn_once [of None ?ps demo_config 200 100 0 "\<lambda>n. 1 / 2" 7]
  have len: "length (fst ?r) = 2" using t by simp
  have k: "snd ?r = 8"
    using t by (simp add: spec_crossings_def spec_exits_def spec_moved_def demo_config_def)
  have n0: "fst ?r ! 0 = \<lparr>p_x = 100, p_y = - 5, p_vx = 0, p_vy = 2\<rparr>"
    using t by (simp add: spec_crossings_def spec_exits_def spec_moved_def spec_respawn_def demo_config_def)
  have n1: "fst ?r ! 1 = \<lparr>p_x = 20, p_y = 51, p_vx = 0, p_vy = 1\<rparr>"
    using t by (simp add: spec_crossings_def spec_exits_def spec_moved_def spec_respawn_def demo_config_def)
  have "fst ?r = [fst ?r ! 0, fst ?r ! 1]"
    using len by (cases "fst ?r"; cases "tl (fst ?r)") auto
  then have "fst ?r = [\<lparr>p_x = 100, p_y = - 5, p_vx = 0, p_vy = 2\<rparr>, \<lparr>p_x = 20, p_y = 51, p_vx = 0, p_vy = 1\<rparr>]"
    using n0 n1 by simp
  then show ?thesis using k by (simp add: prod_eq_iff)
qed

lemma new_particle_inv:
  assumes "0 \<le> rnd (k + 1)" "rnd (k + 1) < 1" "0 \<le> rnd k" "rnd k < 1"
    "0 \<le> rnd (k + 2)" "0 \<le> width" "0 \<le> height"
  shows "particle_inv d width height (new_particle d width height rnd k)"
proof -
  have y: "0 \<le> rnd (k + 1) * height \<and> rnd (k + 1) * height \<le> height"
    using assms by (simp add: mult_left_le_one_le)
  have x: "0 \<le> rnd k * width \<and> rnd k * width \<le> width"
    using assms by (simp add: mult_left_le_one_le)
  show ?thesis
    using x y assms(5)
    by (cases d)
       (simp_all add: particle_inv_def within_margin_def drifts_def new_particle_def
          travel_coord_def travel_dimension_def)
qed

lemma init_loop_inv:
  "(\<forall>n. 0 \<le> rnd n \<and> rnd n < 1) \<Longrightarrow> 0 \<le> width \<Longrightarrow> 0 \<le> height \<Longrightarrow>
   (\<forall>p \<in> set (fst st). particle_inv (direction config) width height p) \<Longrightarrow>
   (\<forall>p \<in> set (fst (init_loop config width height rnd i st)).
      particle_inv (direction config) width height p)"
proof (induction config width height rnd i st rule: init_loop.induct)
  case (1 config width height rnd i st)
  show ?case
  proof (cases "int i < count config")
    case True
    have new: "particle_inv (direction config) width height
                 (new_particle (direction config) width height rnd (snd st))"
      using "1.prems" by (intro new_particle_inv) simp_all
    show ?thesis
      using True "1.IH" [OF True] "1.prems" new
      by (simp add: init_loop.simps [of config width height rnd i st])
  next
    case False
    then show ?thesis
      using "1.prems" by (simp add: init_loop.simps [of config width height rnd i st])
  qed
qed

lemma initParticles_inv:
  "(\<forall>n. 0 \<le> rnd n \<and> rnd n < 1) \<Longrightarrow> 0 \<le> width \<Longrightarrow> 0 \<le> height \<Longrightarrow>
   \<forall>p \<in> set (fst (initParticles ps0 config width height rnd k)).
      particle_inv (direction config) width height p"
  unfolding initParticles_def by (rule init_loop_inv) simp_all

lemma update_particle_inv:
  assumes inv: "particle_inv (direction config) width height p"
    and "0 \<le> speed config" and "0 \<le> m" and "0 \<le> width" and "0 \<le> height"
  shows "particle_inv (direction config) width height
           (fst (update_particle config width height m rnd p k))"
proof -
  have sm: "0 \<le> speed config * m" using assms by simp
  have up: "0 \<le> v * speed config * m" if "0 \<le> v" for v
    using sm that by (simp add: mult.assoc)
  have down: "v * speed config * m \<le> 0" if "v \<le> 0" for v
    using sm that by (simp add: mult.assoc mult_nonpos_nonneg)
  note defs = particle_inv_def within_margin_def drifts_def update_particle_def
    travel_coord_def travel_dimension_def Let_def
  show ?thesis
  proof (cases "direction config")
    case Top
    then have "0 \<le> p_vy p * speed config * m"
      using inv by (intro up) (simp add: defs)
    then show ?thesis using Top inv assms(5) by (auto simp add: defs)
  next
    case Bottom
    then have "p_vy p * speed config * m \<le> 0"
      using inv by (intro down) (simp add: defs)
    then show ?thesis using Bottom inv assms(5) by (auto simp add: defs)
  next
    case Left
    then have "0 \<le> p_vx p * speed config * m"
      using inv by (intro up) (simp add: defs)
    then show ?thesis using Left inv assms(4) by (auto simp add: defs)
  next
    case Right
    then have "p_vx p * speed config * m \<le> 0"
      using inv by (intro down) (simp add: defs)
    then show ?thesis using Right inv assms(4) by (auto simp add: defs)
  qed
qed

lemma update_loop_inv:
  assumes "0 \<le> speed config" and "0 \<le> m" and "0 \<le> width" and "0 \<le> height"
  shows "\<forall>p \<in> set ps. particle_inv (direction config) width height p \<Longrightarrow>
         \<forall>p \<in> set (fst (update_loop config width height m rnd ps k)).
            particle_inv (direction config) width height p"
proof (induction ps arbitrary: k)
  case Nil
  then show ?case by simp
next
  case (Cons p ps)
  have hd: "particle_inv (direction config) width height
              (fst (update_particle config width height m rnd p k))"
    using Cons.prems assms by (intro update_particle_inv) simp_all
  have tl: "\<forall>q \<in> set (fst (update_loop config width height m rnd ps
                 (snd (update_particle config width height m rnd p k)))).
              particle_inv (direction config) width height q"
    using Cons.prems by (intro Cons.IH) simp
  show ?case using hd tl by (simp add: split_beta Let_def)
qed

lemma run_ticks_inv:
  assumes "0 \<le> speed config" and "0 \<le> width" and "0 \<le> height"
  shows "\<forall>bi \<in> set bis. 0 \<le> bi \<and> bi \<le> 1 \<Longrightarrow>
         \<forall>p \<in> set (fst st). particle_inv (direction config) width height p \<Longrightarrow>
         \<forall>p \<in> set (fst (run_ticks config width height rnd bis st)).
            particle_inv (direction config) width height p"
proof (induction bis arbitrary: st)
  case Nil
  then show ?case by simp
next
  case (Cons bi bis)
  have m: "0 \<le> 1 + bi * 0.3" using Cons.prems(1) by simp
  have step: "\<forall>p \<in> set (fst (updateParticles (fst st) config width height bi rnd (snd st))).
                particle_inv (direction config) width height p"
    unfolding updateParticles_def Let_def
    using Cons.prems(2) by (intro update_loop_inv assms m)
  show ?case
    using Cons.IH [OF _ step] Cons.prems(1) by simp
qed

lemma map_upt_shift:
  "0 < n \<Longrightarrow> map f [0..<n] = f 0 # map (\<lambda>j. f (Suc j)) [0..<n - 1]"
proof -
  assume "0 < n"
  then obtain m where n: "n = Suc m" by (cases n) auto
  have "[0..<Suc m] = 0 # map Suc [0..<m]"
    by (simp only: upt_conv_Cons [of 0 "Suc m"] map_Suc_upt zero_less_Suc)
  then have "map f [0..<Suc m] = f 0 # map (\<lambda>j. f (Suc j)) [0..<m]"
    by (simp only: list.map map_map comp_def)
  then show ?thesis using n by simp
qed

lemma init_loop_closed:
  "init_loop config width height rnd i st =
     (fst st @ map (\<lambda>j. new_particle (direction config) width height rnd (snd st + 3 * j))
                [0..<nat (count config) - i],
      snd st + 3 * (nat (count config) - i))"
proof (induction config width height rnd i st rule: init_loop.induct)
  case (1 config width height rnd i st)
  let ?n = "nat (count config)"
  let ?np = "new_particle (direction config) width height rnd"
  show ?case
  proof (cases "int i < count config")
    case True
    then have pos: "0 < ?n - i" by linarith
    have eq: "?n - Suc i = ?n - i - 1" by simp
    have k: "snd st + 3 + 3 * (?n - i - 1) = snd st + 3 * (?n - i)"
      using pos by linarith
    have shift: "map (\<lambda>j. ?np (snd st + 3 * j)) [0..<?n - i] =
                 ?np (snd st) # map (\<lambda>j. ?np (snd st + 3 + 3 * j)) [0..<?n - i - 1]"
    proof -
      show ?thesis
        using map_upt_shift [OF pos, of "\<lambda>j. ?np (snd st + 3 * j)"]
        by (simp add: add.assoc)
    qed
    have "init_loop config width height rnd i st =
          init_loop config width height rnd (Suc i) (fst st @ [?np (snd st)], snd st + 3)"
      using True by (simp add: init_loop.simps [of config width height rnd i st])
    also have "\<dots> = ((fst st @ [?np (snd st)]) @
                       map (\<lambda>j. ?np (snd st + 3 + 3 * j)) [0..<?n - i - 1],
                     snd st + 3 + 3 * (?n - i - 1))"
      using "1.IH" [OF True] by (simp only: fst_conv snd_conv eq)
    also have "\<dots> = (fst st @ map (\<lambda>j. ?np (snd st + 3 * j)) [0..<?n - i],
                     snd st + 3 * (?n - i))"
      by (simp only: shift k append_Cons append_Nil append_assoc)
    finally show ?thesis .
  next
    case False
    then have "?n - i = 0" by linarith
    then show ?thesis
      using False by (simp add: init_loop.simps [of config width height rnd i st])
  qed
qed

lemma initParticles_closed:
  "initParticles ps config width height rnd k =
     (map (\<lambda>j. new_particle (direction config) width height rnd (k + 3 * j))
        [0..<nat (count config)],
      k + 3 * nat (count config))"
  by (simp add: initParticles_def init_loop_closed)

text \<open>
  C6.  For a particle set made by \<open>initParticles\<close> (random values in \<open>[0, 1)\<close>, frame
  dimensions not negative), any direction, a speed that is not negative (the control
  ranges over 0.1 to 5) and any sequence of ticks with bass intensities in \<open>[0, 1]\<close>,
  every particle's coordinate on the axis of travel is within
  \<open>[-5, dimension + 5]\<close> after the last tick, hence after every tick.
\<close>

theorem particles_stay_within_margin:
  assumes "\<forall>n. 0 \<le> rnd n \<and> rnd n < 1"
    and "0 \<le> width" and "0 \<le> height" and "0 \<le> speed config"
    and "\<forall>bi \<in> set bis. 0 \<le> bi \<and> bi \<le> 1"
  shows "\<forall>p \<in> set (fst (run_ticks config width height rnd bis
                           (initParticles ps0 config width height rnd k))).
           - 5 \<le> travel_coord (direction config) p
         \<and> travel_coord (direction config) p
             \<le> travel_dimension (direction config) width height + 5"
proof -
  have "\<forall>p \<in> set (fst (run_ticks config width height rnd bis
                           (initParticles ps0 config width height rnd k))).
          particle_inv (direction config) width height p"
    using assms by (intro run_ticks_inv initParticles_inv) simp_all
  then show ?thesis by (simp add: particle_inv_def within_margin_def)
qed

theorem particles_stay_within_margin_witness:
  "list_all (\<lambda>p. - 5 \<le> p_y p \<and> p_y p \<le> 105)
     (fst (run_ticks demo_config 200 100 (\<lambda>n. 1 / 2) [0, 1]
            (initParticles [] demo_config 200 100 (\<lambda>n. 1 / 2) 0)))
   \<and> length (fst (run_ticks demo_config 200 100 (\<lambda>n. 1 / 2) [0, 1]
            (initParticles [] demo_config 200 100 (\<lambda>n. 1 / 2) 0))) = 2"
proof -
  have two: "[0..<2] = [0, Suc 0]" by (simp add: upt_rec)
  have len: "length (fst (run_ticks demo_config 200 100 (\<lambda>n. 1 / 2) [0, 1]
            (initParticles [] demo_config 200 100 (\<lambda>n. 1 / 2) 0))) = 2"
    by (simp add: initParticles_closed updateParticles_def update_loop_length demo_config_def)
  show ?thesis
    using len particles_stay_within_margin [of "\<lambda>n. 1 / 2" 200 100 demo_config "[0, 1]" "[]" 0]
    by (simp add: list_all_iff travel_coord_def travel_dimension_def demo_config_def)
qed



section \<open>Properties of the text layer\<close>

lemma fill_texts_append: "fill_texts (xs @ ys) = fill_texts xs @ fill_texts ys"
  by (induction xs rule: fill_texts.induct) simp_all

text \<open>
  C10.  The text layer draws nothing at all when the main text is empty, also when
  the author text is not; otherwise it draws the main text, and after it the author
  text when that is not empty.  So the author text is drawn only with a main text.
\<close>

theorem drawText_author_needs_main:
  "(mainText config = [] \<longrightarrow> drawText width height ls config = [])
   \<and> fill_texts (drawText width height ls config) =
       (if mainText config = [] then []
        else if authorText config = [] then [mainText config]
        else [mainText config, authorText config])"
  by (simp add: drawText_def Let_def fill_texts_append)

theorem drawText_author_needs_main_witness:
  "drawText 1280 720 True demo_text = []
   \<and> fill_texts (drawText 1280 720 True (demo_text\<lparr>mainText := ''wonderful music''\<rparr>))
       = [''wonderful music'', ''by Sound Fold Studio'']"
  using drawText_author_needs_main [of demo_text 1280 720 True]
    drawText_author_needs_main [of "demo_text\<lparr>mainText := ''wonderful music''\<rparr>" 1280 720 True]
  by (simp add: demo_text_def)

section \<open>Properties of the visualizer geometry\<close>

lemma rotations_append: "rotations (xs @ ys) = rotations xs @ rotations ys"
  by (induction xs rule: rotations.induct) simp_all

lemma rotations_concat_map:
  "rotations (concat (map f xs)) = concat (map (\<lambda>x. rotations (f x)) xs)"
  by (induction xs) (simp_all add: rotations_append)

lemma rotations_drawBar: "rotations (drawBar radius h) = []"
  by (simp add: drawBar_def)

lemma rotations_bar_at: "rotations (bar_at radius a h) = [a]"
  by (simp add: bar_at_def rotations_append rotations_drawBar)

lemma clamped_barCount_range: "8 \<le> clamped_barCount config \<and> clamped_barCount config \<le> 128"
  by (simp add: clamped_barCount_def)

lemma spec_distinctCount_div:
  "spec_distinctCount config = nat (clamped_barCount config div int (spec_fold (reflection config)))"
proof -
  have "\<lfloor>real_of_int (clamped_barCount config) / real (spec_fold (reflection config))\<rfloor>
        = clamped_barCount config div int (spec_fold (reflection config))"
    using floor_divide_of_int_eq [of "clamped_barCount config" "int (spec_fold (reflection config))",
        where ?'a = real]
    by simp
  then show ?thesis by (simp add: spec_distinctCount_def)
qed

lemma draw_bars_rotations:
  assumes "0 \<le> bc"
  shows "rotations (draw_bars config radius mbh bc audioData) =
     concat (map (\<lambda>i. spec_offsets (reflection config)
                         (spec_base_angle i (nat (bc div int (spec_fold (reflection config))))
                            (spec_fold (reflection config))))
        [0..<nat (bc div int (spec_fold (reflection config)))])"
proof (cases "reflection config")
  case ReflNone
  then show ?thesis
    using assms
    by (simp add: draw_bars_def Let_def rotations_concat_map rotations_append rotations_bar_at
          spec_base_angle_def mult.commute)
next
  case ReflTwo
  have "0 \<le> bc div 2" using assms by simp
  then show ?thesis
    using ReflTwo
    by (simp add: draw_bars_def Let_def rotations_concat_map rotations_append rotations_bar_at
          spec_base_angle_def)
next
  case ReflFour
  have "0 \<le> bc div 4" using assms by simp
  then show ?thesis
    using ReflFour
    by (simp add: draw_bars_def Let_def rotations_concat_map rotations_append rotations_bar_at
          spec_base_angle_def)
next
  case ReflEight
  have "0 \<le> bc div 8" using assms by simp
  then show ?thesis
    using ReflEight
    by (simp add: draw_bars_def Let_def rotations_concat_map rotations_append rotations_bar_at
          spec_base_angle_def)
qed

lemma length_concat_map_const:
  "(\<And>x. length (f x) = c) \<Longrightarrow> length (concat (map f xs)) = length xs * c"
  by (induction xs) simp_all

lemma length_spec_offsets: "length (spec_offsets r a) = spec_fold r"
  by (cases r) simp_all

lemma draw_bars_take:
  assumes "0 \<le> bc"
  shows "draw_bars config radius mbh bc
           (take (nat (bc div int (spec_fold (reflection config)))) audioData)
         = draw_bars config radius mbh bc audioData"
  by (cases "reflection config") (simp_all add: draw_bars_def Let_def)

lemma bar_angles_eq:
  "bar_angles audioData logoRect config =
     concat (map (\<lambda>i. spec_offsets (reflection config)
                         (spec_base_angle i (spec_distinctCount config)
                            (spec_fold (reflection config))))
        [0..<spec_distinctCount config])"
proof -
  have nn: "0 \<le> clamped_barCount config"
    using clamped_barCount_range [of config] by simp
  show ?thesis
    unfolding bar_angles_def drawCircularVisualizer_def Let_def spec_distinctCount_div
    by (simp add: rotations_append draw_bars_rotations [OF nn])
qed

lemma bar_at_spec: "bar_at radius a h = spec_bar radius a h"
  by (simp add: bar_at_def spec_bar_def drawBar_def)

lemma bar_height_spec:
  assumes "i < n"
  shows "bar_height (take n audioData) i (spec_maxBarHeight logoRect config) (sensitivity config)
         = spec_height audioData logoRect config i"
  using assms by (simp add: bar_height_def spec_height_def read_u8_def)

lemma draw_bars_spec:
  assumes "0 \<le> bc"
  shows "draw_bars config radius (spec_maxBarHeight logoRect config) bc audioData =
     concat (map (\<lambda>i.
        concat (map (\<lambda>a. spec_bar radius a (spec_height audioData logoRect config i))
                  (spec_offsets (reflection config)
                     (spec_base_angle i (nat (bc div int (spec_fold (reflection config))))
                        (spec_fold (reflection config))))))
       [0..<nat (bc div int (spec_fold (reflection config)))])"
proof (cases "reflection config")
  case ReflNone
  show ?thesis
    unfolding draw_bars_def Let_def ReflNone
    using assms
    by (auto intro!: arg_cong [where f = concat] simp add: bar_at_spec bar_height_spec
          spec_base_angle_def mult.commute)
next
  case ReflTwo
  have "0 \<le> bc div 2" using assms by simp
  then show ?thesis
    unfolding draw_bars_def Let_def ReflTwo
    by (auto intro!: arg_cong [where f = concat] simp add: bar_at_spec bar_height_spec
          spec_base_angle_def)
next
  case ReflFour
  have "0 \<le> bc div 4" using assms by simp
  then show ?thesis
    unfolding draw_bars_def Let_def ReflFour
    by (auto intro!: arg_cong [where f = concat] simp add: bar_at_spec bar_height_spec
          spec_base_angle_def)
next
  case ReflEight
  have "0 \<le> bc div 8" using assms by simp
  then show ?thesis
    unfolding draw_bars_def Let_def ReflEight
    by (auto intro!: arg_cong [where f = concat] simp add: bar_at_spec bar_height_spec
          spec_base_angle_def)
qed


lemma strokes_append: "strokes (xs @ ys) = strokes xs + strokes ys"
  by (simp add: strokes_def)

lemma strokes_spec_bar: "strokes (spec_bar radius a h) = (if js_lt h (Num 1) then 0 else 1)"
  by (simp add: strokes_def spec_bar_def)

lemma strokes_copies:
  "strokes (concat (map (\<lambda>a. spec_bar radius a h) as)) =
     (if js_lt h (Num 1) then 0 else length as)"
  by (induction as) (simp_all add: strokes_append strokes_spec_bar, simp add: strokes_def)

lemma strokes_bars:
  assumes "\<And>i. length (offs i) = F"
  shows "strokes (concat (map (\<lambda>i. concat (map (\<lambda>a. spec_bar radius a (h i)) (offs i))) xs)) =
           F * length (filter (\<lambda>i. \<not> js_lt (h i) (Num 1)) xs)"
proof (induction xs)
  case Nil
  then show ?case by (simp add: strokes_def)
next
  case (Cons x xs)
  then show ?case
    by (simp add: strokes_append strokes_copies assms)
qed

lemma strokes_spec_bars:
  "strokes (spec_bars spectrum logoRect config) =
     spec_fold (reflection config) * length (spec_visible spectrum logoRect config)"
  unfolding spec_bars_def spec_visible_def
  by (rule strokes_bars) (rule length_spec_offsets)

lemma drawCircularVisualizer_spec:
  "drawCircularVisualizer audioData logoRect config =
     [Save,
      Translate (r_x logoRect + r_w logoRect / 2) (r_y logoRect + r_h logoRect / 2),
      Rotate (rotation config * (pi / 180)),
      SetFillStyle (RadialGradient (spec_radius logoRect config)
         (spec_radius logoRect config + spec_maxBarHeight logoRect config) (color' config)),
      SetLineWidth (max 1 (r_w logoRect * barThickness config)),
      SetStrokeStyle (RadialGradient (spec_radius logoRect config)
         (spec_radius logoRect config + spec_maxBarHeight logoRect config) (color' config))]
     @ spec_bars audioData logoRect config
     @ [Restore]"
proof -
  have nn: "0 \<le> clamped_barCount config"
    using clamped_barCount_range [of config] by simp
  have m: "(r_w logoRect * 0.5 + 20) * barMaxHeight config = spec_maxBarHeight logoRect config"
    by (simp add: spec_maxBarHeight_def)
  have r: "min (r_w logoRect) (r_h logoRect) / 2 + 15 + r_w logoRect * barDistance config
           = spec_radius logoRect config"
    by (simp add: spec_radius_def)
  show ?thesis
    unfolding drawCircularVisualizer_def Let_def m r draw_bars_spec [OF nn]
      spec_bars_def spec_distinctCount_div
    by simp
qed


text \<open>
  C3.  With \<open>F\<close> the fold factor of the reflection mode and
  \<open>distinctCount = \<lfloor>barCount / F\<rfloor>\<close> (\<open>barCount\<close> clamped to 8..128, hence the
  configured count itself when that is in 8..128), the drawing is exactly this: in a
  coordinate system moved to the centre of the logo rectangle and turned by the
  configured rotation, for the base indices \<open>0 \<le> i < distinctCount\<close> in order, one bar
  for each angle that the table gives for the base angle
  \<open>(i / distinctCount) \<times> (2\<pi> / F)\<close>, every copy with the height of bin \<open>i\<close>, a bar
  being skipped when its height is below 1.  So the bars are at
  \<open>distinctCount \<times> F\<close> angular positions, \<open>F\<close> bars are stroked for every base index
  whose height is not below 1, and the spectrum beyond its first \<open>distinctCount\<close> bins
  has no influence on the drawing.
\<close>

theorem visualizer_reflection_table:
  "drawCircularVisualizer audioData logoRect config =
     [Save,
      Translate (r_x logoRect + r_w logoRect / 2) (r_y logoRect + r_h logoRect / 2),
      Rotate (rotation config * (pi / 180)),
      SetFillStyle (RadialGradient (spec_radius logoRect config)
         (spec_radius logoRect config + spec_maxBarHeight logoRect config) (color' config)),
      SetLineWidth (max 1 (r_w logoRect * barThickness config)),
      SetStrokeStyle (RadialGradient (spec_radius logoRect config)
         (spec_radius logoRect config + spec_maxBarHeight logoRect config) (color' config))]
     @ spec_bars audioData logoRect config
     @ [Restore]
   \<and> strokes (drawCircularVisualizer audioData logoRect config) =
       spec_fold (reflection config) * length (spec_visible audioData logoRect config)
   \<and> bar_angles audioData logoRect config =
     concat (map (\<lambda>i. spec_offsets (reflection config)
                         (spec_base_angle i (spec_distinctCount config)
                            (spec_fold (reflection config))))
        [0..<spec_distinctCount config])
   \<and> length (bar_angles audioData logoRect config) =
       spec_distinctCount config * spec_fold (reflection config)
   \<and> drawCircularVisualizer (take (spec_distinctCount config) audioData) logoRect config =
       drawCircularVisualizer audioData logoRect config
   \<and> (8 \<le> barCount config \<and> barCount config \<le> 128 \<longrightarrow>
        spec_distinctCount config =
          nat \<lfloor>real_of_int (barCount config) / real (spec_fold (reflection config))\<rfloor>)"
proof -
  have nn: "0 \<le> clamped_barCount config"
    using clamped_barCount_range [of config] by simp
  have str: "strokes (drawCircularVisualizer audioData logoRect config) =
       spec_fold (reflection config) * length (spec_visible audioData logoRect config)"
    unfolding drawCircularVisualizer_spec strokes_append strokes_spec_bars
    by (simp add: strokes_def)
  have len: "length (bar_angles audioData logoRect config) =
       spec_distinctCount config * spec_fold (reflection config)"
    unfolding bar_angles_eq
    by (simp add: length_concat_map_const [where c = "spec_fold (reflection config)"]
          length_spec_offsets)
  have drop: "drawCircularVisualizer (take (spec_distinctCount config) audioData) logoRect config =
       drawCircularVisualizer audioData logoRect config"
    unfolding drawCircularVisualizer_def Let_def spec_distinctCount_div
    by (simp add: draw_bars_take [OF nn])
  have clamp: "8 \<le> barCount config \<and> barCount config \<le> 128 \<longrightarrow>
        spec_distinctCount config =
          nat \<lfloor>real_of_int (barCount config) / real (spec_fold (reflection config))\<rfloor>"
    by (simp add: spec_distinctCount_def clamped_barCount_def)
  show ?thesis
    using drawCircularVisualizer_spec [of audioData logoRect config] str bar_angles_eq len drop
      clamp
    by blast
qed

theorem visualizer_reflection_table_witness:
  "spec_distinctCount demo_visualizer = 25
   \<and> length (bar_angles (replicate 128 255) \<lparr>r_x = 568, r_y = 288, r_w = 144, r_h = 144\<rparr>
        demo_visualizer) = 100
   \<and> strokes (drawCircularVisualizer (replicate 128 255)
        \<lparr>r_x = 568, r_y = 288, r_w = 144, r_h = 144\<rparr> demo_visualizer) = 100
   \<and> take 8 (bar_angles (replicate 128 255) \<lparr>r_x = 568, r_y = 288, r_w = 144, r_h = 144\<rparr>
        demo_visualizer)
       = [0, 0, pi, pi, pi / 50, - (pi / 50), pi - pi / 50, pi + pi / 50]
   \<and> take 18 (drawCircularVisualizer (replicate 128 255)
        \<lparr>r_x = 568, r_y = 288, r_w = 144, r_h = 144\<rparr> demo_visualizer)
       = [Save, Translate 640 360, Rotate 0,
          SetFillStyle (RadialGradient (2463 / 25) (4763 / 25) ''#A78BFA''),
          SetLineWidth (378 / 125),
          SetStrokeStyle (RadialGradient (2463 / 25) (4763 / 25) ''#A78BFA''),
          Save, Rotate 0, BeginPath, MoveTo (2463 / 25) 0, LineTo (Num (4533 / 25)) 0, Stroke,
          Restore,
          Save, Rotate 0, BeginPath, MoveTo (2463 / 25) 0, LineTo (Num (4533 / 25)) 0]"
proof -
  let ?S = "replicate 128 (255 :: 8 word)"
  let ?R = "\<lparr>r_x = 568, r_y = 288, r_w = 144, r_h = 144\<rparr>"
  have n: "spec_distinctCount demo_visualizer = 25"
    by (simp add: spec_distinctCount_def clamped_barCount_def demo_visualizer_def)
  have r: "reflection demo_visualizer = ReflFour"
    by (simp add: demo_visualizer_def)
  have up: "[0..<25] = 0 # 1 # [2..<25]"
    by (simp add: upt_conv_Cons)
  note t = visualizer_reflection_table [of ?S ?R demo_visualizer]
  have len: "length (bar_angles ?S ?R demo_visualizer) = 100"
    using t [THEN conjunct2, THEN conjunct2, THEN conjunct2, THEN conjunct1]
    by (simp add: n r)
  have h: "spec_height ?S ?R demo_visualizer i = Num (414 / 5)" if "i < 25" for i
    using that by (simp add: spec_height_def spec_maxBarHeight_def demo_visualizer_def)
  have "filter (\<lambda>i. \<not> js_lt (spec_height ?S ?R demo_visualizer i) (Num 1)) [0..<25] = [0..<25]"
    by (rule filter_True) (simp add: h)
  then have vis: "length (spec_visible ?S ?R demo_visualizer) = 25"
    by (simp add: spec_visible_def n)
  have str: "strokes (drawCircularVisualizer ?S ?R demo_visualizer) = 100"
    using t [THEN conjunct2, THEN conjunct1] by (simp add: vis r)
  have ang: "take 8 (bar_angles ?S ?R demo_visualizer)
       = [0, 0, pi, pi, pi / 50, - (pi / 50), pi - pi / 50, pi + pi / 50]"
    using t [THEN conjunct2, THEN conjunct2, THEN conjunct1] unfolding n r up
    by (simp add: spec_base_angle_def)
  have ops: "take 18 (drawCircularVisualizer ?S ?R demo_visualizer)
       = [Save, Translate 640 360, Rotate 0,
          SetFillStyle (RadialGradient (2463 / 25) (4763 / 25) ''#A78BFA''),
          SetLineWidth (378 / 125),
          SetStrokeStyle (RadialGradient (2463 / 25) (4763 / 25) ''#A78BFA''),
          Save, Rotate 0, BeginPath, MoveTo (2463 / 25) 0, LineTo (Num (4533 / 25)) 0, Stroke,
          Restore,
          Save, Rotate 0, BeginPath, MoveTo (2463 / 25) 0, LineTo (Num (4533 / 25)) 0]"
  proof -
    have rad: "spec_radius ?R demo_visualizer = 2463 / 25"
      by (simp add: spec_radius_def demo_visualizer_def)
    have mbh: "spec_maxBarHeight ?R demo_visualizer = 92"
      by (simp add: spec_maxBarHeight_def demo_visualizer_def)
    have cfg: "rotation demo_visualizer = 0" "color' demo_visualizer = ''#A78BFA''"
      "barThickness demo_visualizer = 21 / 1000"
      by (simp_all add: demo_visualizer_def)
    have h0: "spec_height ?S ?R demo_visualizer 0 = Num (414 / 5)" by (rule h) simp
    show ?thesis
      using t [THEN conjunct1] unfolding spec_bars_def n r up
      by (simp add: h0 rad mbh cfg spec_bar_def spec_base_angle_def)
  qed
  show ?thesis using n len str ang ops by (intro conjI)
qed

section \<open>Properties of the smoothing filter\<close>

lemma smooth_loop_done: "smooth_loop a raw n n S = S"
  by (simp add: smooth_loop.simps [of a raw n n S])

lemma smooth_loop_nth:
  "length S = n \<Longrightarrow> length R = n \<Longrightarrow>
   length (smooth_loop a R n j S) = n \<and>
   (\<forall>k < n. smooth_loop a R n j S ! k = (if j \<le> k then blend a (S ! k) (R ! k) else S ! k))"
proof (induction a R n j S rule: smooth_loop.induct)
  case (1 a R n j S)
  show ?case
  proof (cases "j < n")
    case True
    let ?v = "to_uint8 (fl (js_add (fl (js_mul (Num a) (read_u8 S j)))
                (fl (js_mul (fl (Num (1 - a))) (read_u8 R j)))))"
    have v: "?v = blend a (S ! j) (R ! j)"
      using True "1.prems" by (simp add: read_u8_def blend_def)
    have unf: "smooth_loop a R n j S = smooth_loop a R n (Suc j) (S[j := ?v])"
      using True by (subst smooth_loop.simps) simp
    have ih: "length (smooth_loop a R n (Suc j) (S[j := ?v])) = n \<and>
      (\<forall>k < n. smooth_loop a R n (Suc j) (S[j := ?v]) ! k =
         (if Suc j \<le> k then blend a (S[j := ?v] ! k) (R ! k) else S[j := ?v] ! k))"
      using "1.IH" [OF True] "1.prems" by simp
    have each: "smooth_loop a R n (Suc j) (S[j := ?v]) ! k =
                  (if j \<le> k then blend a (S ! k) (R ! k) else S ! k)" if k: "k < n" for k
    proof -
      consider "k < j" | "k = j" | "j < k" by linarith
      then show ?thesis
      proof cases
        case 1
        then show ?thesis using ih k by simp
      next
        case 2
        then show ?thesis using ih k v "1.prems" by simp
      next
        case 3
        then show ?thesis using ih k by simp
      qed
    qed
    show ?thesis
      unfolding unf using ih each by simp
  next
    case False
    then show ?thesis
      using "1.prems" by (subst smooth_loop.simps, subst smooth_loop.simps) simp
  qed
qed

lemma smooth_tick_eq:
  assumes "length S = length R"
  shows "smooth_loop a R (length R) 0 S = map (\<lambda>(s, r). blend a s r) (zip S R)"
  using smooth_loop_nth [OF assms refl, of a 0] assms
  by (intro nth_equalityI) simp_all

lemma byte_int_bound: "int (unat (r :: 8 word)) < 256"
  using uint_bounded [of r] by simp

lemma unat_word_of_small_int:
  "0 \<le> (z::int) \<Longrightarrow> z < 256 \<Longrightarrow> unat (word_of_int z :: 8 word) = nat z"
  by (simp add: unat_eq_nat_uint word_of_int_inverse take_bit_int_eq_self uint_word_of_int)

lemma to_uint8_floor:
  "0 \<le> x \<Longrightarrow> to_uint8 (Num x) = word_of_int \<lfloor>x\<rfloor>"
  by (simp add: to_uint8_def)

lemma to_uint8_byte: "to_uint8 (Num (real (unat (r :: 8 word)))) = r"
proof -
  have "0 \<le> real (unat r)" by (rule of_nat_0_le_iff)
  then have "to_uint8 (Num (real (unat r))) = word_of_int \<lfloor>real (unat r)\<rfloor>"
    by (rule to_uint8_floor)
  also have "\<lfloor>real (unat r)\<rfloor> = int (unat r)" by (rule floor_of_nat)
  also have "(word_of_int (int (unat r)) :: 8 word) = r" by simp
  finally show ?thesis .
qed

lemma byte_nat_bound: "unat (w :: 8 word) < 256"
  using unsigned_less [of w, where ?'a = nat] by simp

lemma round_double_byte: "round_double (real (unat (w :: 8 word))) = real (unat w)"
proof -
  have "\<bar>int (unat w)\<bar> < 2 ^ 53" using byte_int_bound [of w] by simp
  from round_double_int [OF this] show ?thesis by simp
qed

lemma round_double_one: "round_double 1 = 1"
  using round_double_int [of 1] by simp

lemma blend_zero: "blend 0 s r = r"
proof -
  have z: "round_double (0 * real (unat s)) = 0" by (simp add: round_double_def)
  have o: "round_double (1 - 0) = 1" using round_double_one by simp
  have "round_double (round_double (0 * real (unat s))
          + round_double (round_double (1 - 0) * real (unat r)))
        = round_double (0 + round_double (1 * real (unat r)))"
    unfolding z o ..
  also have "\<dots> = real (unat r)"
    by (simp only: mult_1 add_0 round_double_byte)
  finally have "round_double (round_double (0 * real (unat s))
          + round_double (round_double (1 - 0) * real (unat r))) = real (unat r)" .
  then show ?thesis
    unfolding blend_def using to_uint8_byte [of r] by (simp only:)
qed

text \<open>
  With the smoothing factor 1/2 every intermediate value is a multiple of 1/2 below
  256, hence a double: the stored byte is the truncated mean of state and raw value.
\<close>

lemma round_double_half_nat: "round_double (real n / 2) = real n / 2" if "n < 512"
proof -
  have "\<bar>int n\<bar> < 2 ^ 53" using that by simp
  from round_double_half [OF this] show ?thesis by simp
qed

lemma blend_half: "blend (1 / 2) s r = word_of_int (int ((unat s + unat r) div 2))"
proof -
  have s: "unat s < 256" and r: "unat r < 256"
    by (rule byte_nat_bound)+
  have h: "round_double (1 - 1 / 2) = 1 / 2"
    using round_double_half_nat [of 1] by simp
  have a: "round_double (1 / 2 * real (unat s)) = real (unat s) / 2"
    using round_double_half_nat [of "unat s"] s by (simp del: of_nat_unat)
  have b: "round_double (1 / 2 * real (unat r)) = real (unat r) / 2"
    using round_double_half_nat [of "unat r"] r by (simp del: of_nat_unat)
  have c: "round_double (real (unat s) / 2 + real (unat r) / 2) = real (unat s + unat r) / 2"
    using round_double_half_nat [of "unat s + unat r"] s r
    by (simp add: add_divide_distrib del: of_nat_unat)
  have x0: "0 \<le> real (unat s + unat r) / 2"
    by (rule divide_nonneg_nonneg) (rule of_nat_0_le_iff, simp)
  have fl: "\<lfloor>real (unat s + unat r) / 2\<rfloor> = int ((unat s + unat r) div 2)"
    using floor_divide_of_nat_eq [of "unat s + unat r" 2, where ?'a = real] by simp
  show ?thesis
    unfolding blend_def h a b c to_uint8_floor [OF x0] fl ..
qed

lemma blend_half_below:
  assumes "unat s < unat r"
  shows "unat s \<le> unat (blend (1 / 2) s r) \<and> unat (blend (1 / 2) s r) < unat r"
proof -
  have r: "unat r < 256" by (rule byte_nat_bound)
  let ?m = "(unat s + unat r) div 2"
  have m: "unat s \<le> ?m \<and> ?m < unat r" using assms by linarith
  have "unat (word_of_int (int ?m) :: 8 word) = nat (int ?m)"
    by (rule unat_word_of_small_int) (use m r in simp_all)
  then show ?thesis using m by (simp add: blend_half)
qed

lemma smoothing_ticks_Suc:
  "smoothing_ticks a R (Suc n) = smooth_loop a R (length R) 0 (smoothing_ticks a R n)"
  by (simp add: smoothing_ticks_def)

lemma length_smoothing_ticks: "length (smoothing_ticks a R n) = length R"
proof (induction n)
  case 0
  then show ?case by (simp add: smoothing_ticks_def)
next
  case (Suc n)
  then show ?case
    using smooth_loop_nth [of "smoothing_ticks a R n" "length R" R a 0]
    by (simp add: smoothing_ticks_Suc)
qed

text \<open>With smoothing factor 0 the smoothed array is the raw array after every frame.\<close>

lemma smoothing_zero_is_raw: "smoothing_ticks 0 R (Suc n) = R"
proof -
  have len: "length (smoothing_ticks 0 R n) = length R"
    by (rule length_smoothing_ticks)
  have "map (\<lambda>(s, r). blend 0 s r) (zip (smoothing_ticks 0 R n) R) = map snd (zip (smoothing_ticks 0 R n) R)"
    by (simp add: blend_zero split_beta)
  also have "\<dots> = R" using len by simp
  finally show ?thesis
    unfolding smoothing_ticks_Suc smooth_tick_eq [OF len] .
qed

text \<open>
  With the smoothing factor 1/2, a bin whose raw magnitude is not 0 stays strictly
  below that magnitude at every frame, whatever the number of bins: the byte store
  truncates the mean of a smaller value and the raw value.
\<close>

lemma smoothing_half_stays_below_raw:
  assumes "j < length R" and "0 < unat (R ! j)"
  shows "unat (smoothing_ticks (1 / 2) R n ! j) < unat (R ! j)"
proof (induction n)
  case 0
  then show ?case using assms by (simp add: smoothing_ticks_def)
next
  case (Suc n)
  have len: "length (smoothing_ticks (1 / 2) R n) = length R"
    by (rule length_smoothing_ticks)
  have "smoothing_ticks (1 / 2) R (Suc n) ! j
          = blend (1 / 2) (smoothing_ticks (1 / 2) R n ! j) (R ! j)"
    unfolding smoothing_ticks_Suc smooth_tick_eq [OF len] using assms(1) len by simp
  then show ?case
    using blend_half_below [OF Suc.IH] by simp
qed

text \<open>
  The same stall at the initial smoothing factor of the application, the double
  nearest to 0.71, and at the largest one of the control, the double nearest to
  0.99: with the raw value 255 the state 252, respectively 156, is kept.
\<close>

lemma blend_stalls_at_defaults:
  "blend (799388933858263 / 1125899906842624) 252 255 = 252"
  "blend (4458563631096791 / 4503599627370496) 156 255 = 156"
  by (simp_all add: blend_def to_uint8_def round_double_def double_ulp_def binade_def
        compute_bitlen pow2_def round_half_even_def Let_def)

lemma single_tick: "smooth_loop a [r] (length [r]) 0 [s] = [blend a s r]"
  using smooth_tick_eq [of "[s]" "[r]" a] by simp

lemma blend_half_255:
  "blend (1 / 2) 0 255 = 127" "blend (1 / 2) 127 255 = 191" "blend (1 / 2) 191 255 = 223"
  "blend (1 / 2) 223 255 = 239" "blend (1 / 2) 239 255 = 247" "blend (1 / 2) 247 255 = 251"
  "blend (1 / 2) 251 255 = 253" "blend (1 / 2) 253 255 = 254" "blend (1 / 2) 254 255 = 254"
  by (simp_all add: blend_half)

text \<open>
  C4.  The smoothed array is a \<open>Uint8Array\<close>, so every update stores the truncated
  blend.  With smoothing factor 1/2 and the constant raw spectrum \<open>[255]\<close> the state
  runs through 127, 191, 223, 239, 247, 251, 253 and is 254 from the eighth frame on,
  for ever: it does not converge to the raw value 255.
\<close>

theorem smoothing_stalls_below_raw:
  "smoothing_ticks (1 / 2) [255] (8 + n) = [254]"
proof (induction n)
  case 0
  have s0: "smoothing_ticks (1 / 2) [255] 0 = [0]"
    by (simp add: smoothing_ticks_def)
  have s1: "smoothing_ticks (1 / 2) [255] (Suc 0) = [127]"
    unfolding smoothing_ticks_Suc s0 single_tick by (simp only: blend_half_255)
  have s2: "smoothing_ticks (1 / 2) [255] (Suc (Suc 0)) = [191]"
    unfolding smoothing_ticks_Suc [of _ _ "Suc 0"] s1 single_tick by (simp only: blend_half_255)
  have s3: "smoothing_ticks (1 / 2) [255] (Suc (Suc (Suc 0))) = [223]"
    unfolding smoothing_ticks_Suc [of _ _ "Suc (Suc 0)"] s2 single_tick
    by (simp only: blend_half_255)
  have s4: "smoothing_ticks (1 / 2) [255] (Suc (Suc (Suc (Suc 0)))) = [239]"
    unfolding smoothing_ticks_Suc [of _ _ "Suc (Suc (Suc 0))"] s3 single_tick
    by (simp only: blend_half_255)
  have s5: "smoothing_ticks (1 / 2) [255] (Suc (Suc (Suc (Suc (Suc 0))))) = [247]"
    unfolding smoothing_ticks_Suc [of _ _ "Suc (Suc (Suc (Suc 0)))"] s4 single_tick
    by (simp only: blend_half_255)
  have s6: "smoothing_ticks (1 / 2) [255] (Suc (Suc (Suc (Suc (Suc (Suc 0)))))) = [251]"
    unfolding smoothing_ticks_Suc [of _ _ "Suc (Suc (Suc (Suc (Suc 0))))"] s5 single_tick
    by (simp only: blend_half_255)
  have s7: "smoothing_ticks (1 / 2) [255] (Suc (Suc (Suc (Suc (Suc (Suc (Suc 0))))))) = [253]"
    unfolding smoothing_ticks_Suc [of _ _ "Suc (Suc (Suc (Suc (Suc (Suc 0)))))"] s6 single_tick
    by (simp only: blend_half_255)
  have s8: "smoothing_ticks (1 / 2) [255]
              (Suc (Suc (Suc (Suc (Suc (Suc (Suc (Suc 0)))))))) = [254]"
    unfolding smoothing_ticks_Suc [of _ _ "Suc (Suc (Suc (Suc (Suc (Suc (Suc 0))))))"] s7 single_tick
    by (simp only: blend_half_255)
  have "(8::nat) + 0 = Suc (Suc (Suc (Suc (Suc (Suc (Suc (Suc 0)))))))" by simp
  then show ?case using s8 by (simp only:)
next
  case (Suc n)
  have "8 + Suc n = Suc (8 + n)" by simp
  then have "smoothing_ticks (1 / 2) [255] (8 + Suc n) =
        smooth_loop (1 / 2) [255] (length [255 :: 8 word]) 0 (smoothing_ticks (1 / 2) [255] (8 + n))"
    by (simp only: smoothing_ticks_Suc)
  also have "\<dots> = [254]"
    unfolding Suc.IH single_tick by (simp only: blend_half_255)
  finally show ?case .
qed

section \<open>Properties of the offline render\<close>

lemma sample_times_append: "sample_times (xs @ ys) = sample_times xs @ sample_times ys"
  by (induction xs rule: sample_times.induct) simp_all

lemma encoded_frames_append:
  "encoded_frames (xs @ ys) = encoded_frames xs @ encoded_frames ys"
  by (induction xs rule: encoded_frames.induct) simp_all

lemma downloads_append: "downloads (xs @ ys) = downloads xs @ downloads ys"
  by (induction xs rule: downloads.induct) simp_all

lemma error_after_append: "error_after e (xs @ ys) = error_after (error_after e xs) ys"
  by (induction e xs rule: error_after.induct) simp_all

text \<open>One iteration that is not cancelled, unfolded.\<close>

lemma render_frames_step:
  assumes "int i \<le> totalFrames" and "isRenderingRef_current env i"
  shows "\<exists>raw smoothed upd wait.
           sample_times upd = [] \<and> encoded_frames upd = [] \<and> downloads upd = []
         \<and> FinalizeMuxer \<notin> set upd \<and> (\<forall>e. error_after e upd = e)
         \<and> sample_times wait = [] \<and> encoded_frames wait = [] \<and> downloads wait = []
         \<and> FinalizeMuxer \<notin> set wait \<and> (\<forall>e. error_after e wait = e)
         \<and> render_frames env r totalFrames i st =
             ([SampleSpectrum (real i / r)] @ upd
              @ [DrawFrame smoothed, EncodeVideoFrame (real i * 1000000 / r),
                 SetRenderProgress
                   (js_round (js_mul (js_div (Num (real i)) (Num (real_of_int totalFrames)))
                      (Num 100)))]
              @ wait @ fst (render_frames env r totalFrames (Suc i) (raw, smoothed)),
              snd (render_frames env r totalFrames (Suc i) (raw, smoothed)))"
proof -
  let ?raw = "fill_u8 (fst st) (getByteFrequencyData env (real i / r))"
  let ?smoothed = "smooth_loop (smoothing (visualizerConfig env)) ?raw (frequencyBinCount env) 0 (snd st)"
  let ?upd = "if enabled (particleConfig env)
              then [UpdateParticles (js_div (bass (getAudioAverages (Some ?smoothed))) (Num 255))]
              else []"
  let ?wait = "if renderSpeed env > 1 then [Wait (10 * (renderSpeed env - 1))] else []"
  have "render_frames env r totalFrames i st =
          ([SampleSpectrum (real i / r)] @ ?upd
           @ [DrawFrame ?smoothed, EncodeVideoFrame (real i * 1000000 / r),
              SetRenderProgress
                (js_round (js_mul (js_div (Num (real i)) (Num (real_of_int totalFrames)))
                   (Num 100)))]
           @ ?wait @ fst (render_frames env r totalFrames (Suc i) (?raw, ?smoothed)),
           snd (render_frames env r totalFrames (Suc i) (?raw, ?smoothed)))"
    using assms by (subst render_frames.simps) (simp add: Let_def)
  moreover have "sample_times ?upd = [] \<and> encoded_frames ?upd = [] \<and> downloads ?upd = []
         \<and> FinalizeMuxer \<notin> set ?upd \<and> (\<forall>e. error_after e ?upd = e)"
    by simp
  moreover have "sample_times ?wait = [] \<and> encoded_frames ?wait = [] \<and> downloads ?wait = []
         \<and> FinalizeMuxer \<notin> set ?wait \<and> (\<forall>e. error_after e ?wait = e)"
    by simp
  ultimately show ?thesis by blast
qed

lemma render_frames_cancel:
  assumes "int i \<le> totalFrames" and "\<not> isRenderingRef_current env i"
  shows "render_frames env r totalFrames i st =
           ([ConsoleLog ''Rendering cancelled by user.''], Some ''Render cancelled'')"
  using assms by (subst render_frames.simps) simp

lemma render_frames_end:
  assumes "\<not> int i \<le> totalFrames"
  shows "render_frames env r totalFrames i st = ([], None)"
  using assms by (subst render_frames.simps) simp

text \<open>The frame loop neither finalizes, nor offers a download, nor sets the error state.\<close>

lemma render_frames_quiet:
  "downloads (fst (render_frames env r totalFrames i st)) = []
   \<and> FinalizeMuxer \<notin> set (fst (render_frames env r totalFrames i st))
   \<and> (\<forall>e. error_after e (fst (render_frames env r totalFrames i st)) = e)"
proof (induction "nat (totalFrames + 1 - int i)" arbitrary: i st)
  case 0
  then have "\<not> int i \<le> totalFrames" by simp
  then show ?case by (simp add: render_frames_end)
next
  case (Suc n)
  then have le: "int i \<le> totalFrames" by linarith
  show ?case
  proof (cases "isRenderingRef_current env i")
    case False
    then show ?thesis by (simp add: render_frames_cancel [OF le])
  next
    case True
    obtain raw smoothed upd wait where
      u: "downloads upd = []" "FinalizeMuxer \<notin> set upd" "\<forall>e. error_after e upd = e" and
      w: "downloads wait = []" "FinalizeMuxer \<notin> set wait" "\<forall>e. error_after e wait = e" and
      eq: "render_frames env r totalFrames i st =
             ([SampleSpectrum (real i / r)] @ upd
              @ [DrawFrame smoothed, EncodeVideoFrame (real i * 1000000 / r),
                 SetRenderProgress
                   (js_round (js_mul (js_div (Num (real i)) (Num (real_of_int totalFrames)))
                      (Num 100)))]
              @ wait @ fst (render_frames env r totalFrames (Suc i) (raw, smoothed)),
              snd (render_frames env r totalFrames (Suc i) (raw, smoothed)))"
      using render_frames_step [OF le True, of r st] by blast
    have m: "n = nat (totalFrames + 1 - int (Suc i))" using Suc.hyps(2) by linarith
    note ih = Suc.hyps(1) [OF m, of "(raw, smoothed)"]
    show ?thesis
      unfolding eq using u w ih
      by (simp add: downloads_append error_after_append)
  qed
qed

text \<open>A loop that is never cancelled samples once per frame index and throws nothing.\<close>

lemma render_frames_samples:
  assumes "\<forall>k. isRenderingRef_current env k"
  shows "sample_times (fst (render_frames env r totalFrames i st)) =
           map (\<lambda>k. real k / r) [i..<nat (totalFrames + 1)]
         \<and> snd (render_frames env r totalFrames i st) = None"
proof (induction "nat (totalFrames + 1 - int i)" arbitrary: i st)
  case 0
  then have "\<not> int i \<le> totalFrames" by simp
  moreover from this have "nat (totalFrames + 1) \<le> i" by linarith
  ultimately show ?case by (simp add: render_frames_end)
next
  case (Suc n)
  then have le: "int i \<le> totalFrames" by linarith
  have run: "isRenderingRef_current env i" using assms by simp
  obtain raw smoothed upd wait where
    u: "sample_times upd = []" and w: "sample_times wait = []" and
    eq: "render_frames env r totalFrames i st =
           ([SampleSpectrum (real i / r)] @ upd
            @ [DrawFrame smoothed, EncodeVideoFrame (real i * 1000000 / r),
               SetRenderProgress
                 (js_round (js_mul (js_div (Num (real i)) (Num (real_of_int totalFrames)))
                    (Num 100)))]
            @ wait @ fst (render_frames env r totalFrames (Suc i) (raw, smoothed)),
            snd (render_frames env r totalFrames (Suc i) (raw, smoothed)))"
    using render_frames_step [OF le run, of r st] by blast
  have m: "n = nat (totalFrames + 1 - int (Suc i))" using Suc.hyps(2) by linarith
  note ih = Suc.hyps(1) [OF m, of "(raw, smoothed)"]
  have lt: "i < nat (totalFrames + 1)" using le by linarith
  show ?case
    unfolding eq using u w ih
    by (simp add: sample_times_append upt_conv_Cons [OF lt])
qed

text \<open>
  A loop whose first cancelled frame boundary is \<open>k\<close> encodes the frames before \<open>k\<close>
  and throws the cancellation.
\<close>

lemma render_frames_cancelled:
  assumes "int k \<le> totalFrames" and "\<forall>j < k. isRenderingRef_current env j"
    and "\<not> isRenderingRef_current env k"
  shows "i \<le> k \<Longrightarrow>
         encoded_frames (fst (render_frames env r totalFrames i st)) =
           map (\<lambda>j. real j * 1000000 / r) [i..<k]
         \<and> snd (render_frames env r totalFrames i st) = Some ''Render cancelled''"
proof (induction "k - i" arbitrary: i st)
  case 0
  then have "i = k" by simp
  then show ?case
    using assms by (simp add: render_frames_cancel)
next
  case (Suc n)
  then have lt: "i < k" by linarith
  then have le: "int i \<le> totalFrames" using assms(1) by linarith
  have run: "isRenderingRef_current env i" using assms(2) lt by simp
  obtain raw smoothed upd wait where
    u: "encoded_frames upd = []" and w: "encoded_frames wait = []" and
    eq: "render_frames env r totalFrames i st =
           ([SampleSpectrum (real i / r)] @ upd
            @ [DrawFrame smoothed, EncodeVideoFrame (real i * 1000000 / r),
               SetRenderProgress
                 (js_round (js_mul (js_div (Num (real i)) (Num (real_of_int totalFrames)))
                    (Num 100)))]
            @ wait @ fst (render_frames env r totalFrames (Suc i) (raw, smoothed)),
            snd (render_frames env r totalFrames (Suc i) (raw, smoothed)))"
    using render_frames_step [OF le run, of r st] by blast
  have m: "n = k - Suc i" using Suc.hyps(2) by linarith
  have "Suc i \<le> k" using lt by simp
  note ih = Suc.hyps(1) [OF m this, of "(raw, smoothed)"]
  show ?case
    unfolding eq using u w ih
    by (simp add: encoded_frames_append upt_conv_Cons [OF lt])
qed

lemma render_try_samples:
  assumes "decodeAudioData env = None" and "getContext env"
    and "\<forall>k. isRenderingRef_current env k"
  shows "sample_times (fst (render_try env r)) =
           map (\<lambda>k. real k / r) [0..<nat (total_frames env r + 1)]"
proof -
  let ?frames = "render_frames env r (total_frames env r) 0
                   (replicate (frequencyBinCount env) 0, replicate (frequencyBinCount env) 0)"
  have f: "sample_times (fst ?frames) = map (\<lambda>k. real k / r) [0..<nat (total_frames env r + 1)]"
    and n: "snd ?frames = None"
    using render_frames_samples [OF assms(3)] by simp_all
  show ?thesis
    using assms(1,2) f n
    by (simp add: render_try_def Let_def sample_times_append)
qed

lemma handleRenderVideo_samples:
  assumes "canvasRef_current env" and "audioRef_current env" and "audioFile env"
    and "analyserRef_current env" and "\<not> isRendering env"
  shows "sample_times (handleRenderVideo env) = sample_times (fst (render_try env frameRate))"
proof -
  have "sample_times (render_catch t) = []" for t
    by (cases t) (simp_all add: render_catch_def)
  then show ?thesis
    using assms by (simp add: handleRenderVideo_def sample_times_append)
qed

lemma frame_times_increasing:
  assumes "0 < r"
  shows "sorted_wrt (<) (map (\<lambda>k. real k / r) [i..<n])"
proof -
  have "sorted_wrt (\<lambda>a b. real a / r < real b / r) [i..<n]"
    by (rule sorted_wrt_mono_rel [OF _ sorted_wrt_upt])
       (simp add: assms divide_strict_right_mono)
  then show ?thesis by (simp add: sorted_wrt_map)
qed

lemma total_frames_nonneg:
  assumes "0 < r" and "0 \<le> duration env"
  shows "0 \<le> total_frames env r"
proof -
  have "0 \<le> duration env * r" using assms by simp
  then have "0 \<le> round_double (duration env * r)" by (rule round_double_nonneg)
  then show ?thesis by (simp add: total_frames_def)
qed

text \<open>
  The frame count and the exact product: the rounding of the product can only lift
  the count, by one, and does not when the exact product is a whole number.
\<close>

lemma total_frames_exact:
  assumes "0 < r" and "0 \<le> duration env" and "duration env * r < 2 ^ 53"
  shows "\<lfloor>duration env * r\<rfloor> \<le> total_frames env r
       \<and> total_frames env r \<le> \<lfloor>duration env * r\<rfloor> + 1
       \<and> (duration env * r = real_of_int \<lfloor>duration env * r\<rfloor> \<longrightarrow>
            total_frames env r = \<lfloor>duration env * r\<rfloor>)"
proof -
  have nn: "0 \<le> duration env * r" using assms by simp
  note b = floor_round_double [OF nn assms(3)]
  have "total_frames env r = \<lfloor>duration env * r\<rfloor>"
    if w: "duration env * r = real_of_int \<lfloor>duration env * r\<rfloor>"
  proof -
    have "real_of_int \<lfloor>duration env * r\<rfloor> < 2 ^ 53" using w assms(3) by simp
    then have "\<lfloor>duration env * r\<rfloor> < 2 ^ 53"
      by (metis of_int_less_iff of_int_numeral of_int_power)
    moreover have "0 \<le> \<lfloor>duration env * r\<rfloor>" using nn by simp
    ultimately have "\<bar>\<lfloor>duration env * r\<rfloor>\<bar> < 2 ^ 53" by simp
    from round_double_int [OF this]
    have "round_double (duration env * r) = real_of_int \<lfloor>duration env * r\<rfloor>"
      using w by simp
    then show ?thesis unfolding total_frames_def by (simp only: floor_of_int)
  qed
  then show ?thesis using b by (simp add: total_frames_def)
qed

text \<open>
  C1.  For a render job that is not cancelled and whose setup succeeds (the audio
  decodes, the canvas gives a context), with a duration \<open>d \<ge> 0\<close> and a frame rate
  \<open>r > 0\<close> (with \<open>d \<times> r\<close> below \<open>2 ^ 53\<close>): \<open>totalFrames = \<lfloor>d \<times> r\<rfloor>\<close>, the product being
  the double that the program computes, and the spectrum is sampled exactly
  \<open>totalFrames + 1\<close> times, at the timestamps \<open>i / r\<close> for \<open>i = 0, \<dots>, totalFrames\<close> in
  this order, which is strictly increasing.  The handler itself runs the job with the
  frame rate 30.  The count is the floor of the exact product or one more, and it is
  the floor of the exact product when that product is a whole number.
\<close>

theorem sampler_once_per_frame:
  assumes "0 < r" and "0 \<le> duration env" and "duration env * r < 2 ^ 53"
    and "decodeAudioData env = None" and "getContext env"
    and "\<forall>i. isRenderingRef_current env i"
  shows "total_frames env r = \<lfloor>round_double (duration env * r)\<rfloor>
       \<and> sample_times (fst (render_try env r)) =
           map (\<lambda>i. real i / r) [0..<nat (total_frames env r) + 1]
       \<and> length (sample_times (fst (render_try env r))) = nat (total_frames env r) + 1
       \<and> sorted_wrt (<) (sample_times (fst (render_try env r)))
       \<and> \<lfloor>duration env * r\<rfloor> \<le> total_frames env r
       \<and> total_frames env r \<le> \<lfloor>duration env * r\<rfloor> + 1
       \<and> (duration env * r = real_of_int \<lfloor>duration env * r\<rfloor> \<longrightarrow>
            total_frames env r = \<lfloor>duration env * r\<rfloor>)
       \<and> (canvasRef_current env \<and> audioRef_current env \<and> audioFile env
            \<and> analyserRef_current env \<and> \<not> isRendering env \<longrightarrow>
          sample_times (handleRenderVideo env) =
            map (\<lambda>i. real i / 30) [0..<nat (total_frames env 30) + 1])"
proof -
  have suc: "nat (total_frames env q + 1) = nat (total_frames env q) + 1" if "0 < q" for q
    using total_frames_nonneg [OF that assms(2)] by linarith
  have a: "sample_times (fst (render_try env q)) =
             map (\<lambda>i. real i / q) [0..<nat (total_frames env q) + 1]" if "0 < q" for q
    using render_try_samples [OF assms(4,5,6), of q] suc [OF that] by (simp only:)
  have b: "length (sample_times (fst (render_try env r))) = nat (total_frames env r) + 1"
    unfolding a [OF assms(1)] by simp
  have c: "sorted_wrt (<) (sample_times (fst (render_try env r)))"
    unfolding a [OF assms(1)] by (rule frame_times_increasing [OF assms(1)])
  have d: "canvasRef_current env \<and> audioRef_current env \<and> audioFile env
            \<and> analyserRef_current env \<and> \<not> isRendering env \<longrightarrow>
          sample_times (handleRenderVideo env) =
            map (\<lambda>i. real i / 30) [0..<nat (total_frames env 30) + 1]"
    using handleRenderVideo_samples [of env] a [of 30]
    by (simp add: frameRate_def)
  note e = total_frames_exact [OF assms(1,2,3)]
  have t: "total_frames env r = \<lfloor>round_double (duration env * r)\<rfloor>"
    by (rule total_frames_def)
  show ?thesis using t a [OF assms(1)] b c d e by blast
qed

theorem sampler_once_per_frame_witness:
  "sample_times (handleRenderVideo (demo_env (\<lambda>i. True))) = map (\<lambda>i. real i / 30) [0..<61]
   \<and> length (sample_times (fst (render_try (demo_env (\<lambda>i. True)) 30))) = 61
   \<and> sorted_wrt (<) (sample_times (fst (render_try (demo_env (\<lambda>i. True)) 30)))
   \<and> length (sample_times (fst (render_try
        ((demo_env (\<lambda>i. True))\<lparr>duration := 3152519739159347 / 4503599627370496\<rparr>) 30))) = 22"
proof -
  let ?env = "demo_env (\<lambda>i. True)"
  have p1: "0 < (30 :: real)" by simp
  have p2: "0 \<le> duration ?env" by (simp add: demo_env_def)
  have p3: "duration ?env * 30 < 2 ^ 53" by (simp add: demo_env_def)
  have p4: "decodeAudioData ?env = None" by (simp add: demo_env_def)
  have p5: "getContext ?env" by (simp add: demo_env_def)
  have p6: "\<forall>i. isRenderingRef_current ?env i" by (simp add: demo_env_def)
  note t = sampler_once_per_frame [OF p1 p2 p3 p4 p5 p6]
  have total: "nat (total_frames ?env 30) + 1 = 61"
    by (simp add: total_frames_def demo_env_def round_double_60)
  have a: "sample_times (handleRenderVideo ?env) = map (\<lambda>i. real i / 30) [0..<61]"
    using t [THEN conjunct2, THEN conjunct2, THEN conjunct2, THEN conjunct2, THEN conjunct2,
             THEN conjunct2, THEN conjunct2]
    unfolding total by (simp add: demo_env_def)
  have b: "length (sample_times (fst (render_try ?env 30))) = 61"
    using t [THEN conjunct2, THEN conjunct2, THEN conjunct1] unfolding total .
  have c: "sorted_wrt (<) (sample_times (fst (render_try ?env 30)))"
    using t [THEN conjunct2, THEN conjunct2, THEN conjunct2, THEN conjunct1] .
  let ?short = "?env\<lparr>duration := 3152519739159347 / 4503599627370496\<rparr>"
  have q2: "0 \<le> duration ?short" by simp
  have q3: "duration ?short * 30 < 2 ^ 53" by simp
  have q4: "decodeAudioData ?short = None" by (simp add: demo_env_def)
  have q5: "getContext ?short" by (simp add: demo_env_def)
  have q6: "\<forall>i. isRenderingRef_current ?short i" by (simp add: demo_env_def)
  note u = sampler_once_per_frame [OF p1 q2 q3 q4 q5 q6]
  have total': "nat (total_frames ?short 30) + 1 = 22"
    using round_double_21 by (simp add: total_frames_def)
  have d: "length (sample_times (fst (render_try ?short 30))) = 22"
    using u [THEN conjunct2, THEN conjunct2, THEN conjunct1] unfolding total' .
  show ?thesis using a b c d by (intro conjI)
qed

text \<open>
  The handler on a job that is cancelled at frame boundary \<open>k\<close>, and on a job whose
  canvas gives no context (a true error): both end in the \<open>catch\<close> clause.
\<close>

lemma render_try_cancelled:
  assumes "decodeAudioData env = None" and "getContext env"
    and "int k \<le> total_frames env r"
    and "\<forall>j < k. isRenderingRef_current env j" and "\<not> isRenderingRef_current env k"
  shows "snd (render_try env r) = Some ''Render cancelled''
       \<and> encoded_frames (fst (render_try env r)) = map (\<lambda>j. real j * 1000000 / r) [0..<k]
       \<and> downloads (fst (render_try env r)) = []
       \<and> FinalizeMuxer \<notin> set (fst (render_try env r))
       \<and> (\<forall>e. error_after e (fst (render_try env r)) = e)"
proof -
  let ?frames = "render_frames env r (total_frames env r) 0
                   (replicate (frequencyBinCount env) 0, replicate (frequencyBinCount env) 0)"
  have c: "encoded_frames (fst ?frames) = map (\<lambda>j. real j * 1000000 / r) [0..<k]"
          "snd ?frames = Some ''Render cancelled''"
    using render_frames_cancelled [OF assms(3,4,5), of 0 r] by simp_all
  have q: "downloads (fst ?frames) = []" "FinalizeMuxer \<notin> set (fst ?frames)"
          "\<forall>e. error_after e (fst ?frames) = e"
    using render_frames_quiet [of env r "total_frames env r" 0] by simp_all
  show ?thesis
    using assms(1,2) c q
    by (simp add: render_try_def Let_def encoded_frames_append downloads_append
          error_after_append)
qed

lemma handleRenderVideo_thrown:
  assumes "canvasRef_current env" and "audioRef_current env" and "audioFile env"
    and "analyserRef_current env" and "\<not> isRendering env"
    and "snd (render_try env frameRate) = Some message"
  shows "error_after e (handleRenderVideo env) =
           Some (''Rendering failed: '' @ message @ ''. Check console for details.'')
       \<and> encoded_frames (handleRenderVideo env) = encoded_frames (fst (render_try env frameRate))
       \<and> downloads (handleRenderVideo env) = downloads (fst (render_try env frameRate))
       \<and> (FinalizeMuxer \<in> set (handleRenderVideo env)
            \<longleftrightarrow> FinalizeMuxer \<in> set (fst (render_try env frameRate)))"
  using assms
  by (simp add: handleRenderVideo_def render_catch_def error_after_append
        encoded_frames_append downloads_append)

lemma handleRenderVideo_cancelled:
  assumes "canvasRef_current env" and "audioRef_current env" and "audioFile env"
    and "analyserRef_current env" and "\<not> isRendering env"
    and "decodeAudioData env = None" and "getContext env"
    and "int k \<le> total_frames env 30"
    and "\<forall>j < k. isRenderingRef_current env j" and "\<not> isRenderingRef_current env k"
  shows "FinalizeMuxer \<notin> set (handleRenderVideo env)
       \<and> downloads (handleRenderVideo env) = []
       \<and> length (encoded_frames (handleRenderVideo env)) = k
       \<and> error_after e (handleRenderVideo env) =
           Some ''Rendering failed: Render cancelled. Check console for details.''
       \<and> error_banner (error_after e (handleRenderVideo env)) =
           Some ''Error: Rendering failed: Render cancelled. Check console for details.''"
proof -
  have k: "int k \<le> total_frames env frameRate"
    using assms(8) by (simp add: frameRate_def)
  note t = render_try_cancelled [OF assms(6,7) k assms(9,10)]
  note h = handleRenderVideo_thrown [OF assms(1-5) t [THEN conjunct1], of e]
  have err: "error_after e (handleRenderVideo env) =
           Some ''Rendering failed: Render cancelled. Check console for details.''"
    using h by simp
  have "length (encoded_frames (handleRenderVideo env)) = k"
    using h t by simp
  moreover have "downloads (handleRenderVideo env) = []"
    using h t by simp
  moreover have "FinalizeMuxer \<notin> set (handleRenderVideo env)"
    using h t by simp
  moreover have "error_banner (error_after e (handleRenderVideo env)) =
           Some ''Error: Rendering failed: Render cancelled. Check console for details.''"
    unfolding err by (simp add: error_banner_def)
  ultimately show ?thesis using err by simp
qed

lemma handleRenderVideo_no_context:
  assumes "canvasRef_current env" and "audioRef_current env" and "audioFile env"
    and "analyserRef_current env" and "\<not> isRendering env"
    and "decodeAudioData env = None" and "\<not> getContext env"
  shows "error_banner (error_after e (handleRenderVideo env)) =
           Some ''Error: Rendering failed: Could not get canvas context. Check console for details.''"
proof -
  have "snd (render_try env frameRate) = Some ''Could not get canvas context''"
    using assms(6,7) by (simp add: render_try_def Let_def)
  from handleRenderVideo_thrown [OF assms(1-5) this, of e]
  show ?thesis by (simp add: error_banner_def)
qed

text \<open>
  A frame boundary up to the floor of the exact product is a boundary of the loop.
\<close>

lemma boundary_in_loop:
  assumes "0 < r" and "0 \<le> duration env" and "duration env * r < 2 ^ 53"
    and "int k \<le> \<lfloor>duration env * r\<rfloor>"
  shows "int k \<le> total_frames env r"
  using total_frames_exact [OF assms(1,2,3)] assms(4) by linarith

text \<open>
  C2.  A render job whose setup succeeds and that is cancelled at frame boundary \<open>k\<close>
  (the first one at which the loop finds \<open>isRenderingRef.current\<close> false) never
  finalizes the muxer and offers no download; it has handed exactly the \<open>k\<close> frames
  before the boundary to the encoder.  The cancellation is thrown as an \<open>Error\<close> and
  caught by the one \<open>catch\<close> clause of the handler, as every failure is: the error
  state becomes \<open>Rendering failed: Render cancelled. Check console for details.\<close>, and
  the component shows it in its error banner.
\<close>

theorem cancelled_render_is_reported_as_failure:
  assumes "canvasRef_current env" and "audioRef_current env" and "audioFile env"
    and "analyserRef_current env" and "\<not> isRendering env"
    and "decodeAudioData env = None" and "getContext env"
    and "int k \<le> total_frames env 30"
    and "\<forall>j < k. isRenderingRef_current env j" and "\<not> isRenderingRef_current env k"
  shows "FinalizeMuxer \<notin> set (handleRenderVideo env)
       \<and> downloads (handleRenderVideo env) = []
       \<and> length (encoded_frames (handleRenderVideo env)) = k
       \<and> error_after e (handleRenderVideo env) =
           Some ''Rendering failed: Render cancelled. Check console for details.''
       \<and> error_banner (error_after e (handleRenderVideo env)) =
           Some ''Error: Rendering failed: Render cancelled. Check console for details.''"
  by (rule handleRenderVideo_cancelled [OF assms])

theorem cancelled_render_is_reported_as_failure_witness:
  "FinalizeMuxer \<notin> set (handleRenderVideo (demo_env (\<lambda>i. i < 10)))
   \<and> downloads (handleRenderVideo (demo_env (\<lambda>i. i < 10))) = []
   \<and> length (encoded_frames (handleRenderVideo (demo_env (\<lambda>i. i < 10)))) = 10
   \<and> error_banner (error_after None (handleRenderVideo (demo_env (\<lambda>i. i < 10)))) =
       Some ''Error: Rendering failed: Render cancelled. Check console for details.''"
proof -
  let ?env = "demo_env (\<lambda>i. i < 10)"
  have g: "canvasRef_current ?env" "audioRef_current ?env" "audioFile ?env"
    "analyserRef_current ?env" "\<not> isRendering ?env" "decodeAudioData ?env = None"
    "getContext ?env"
    by (simp_all add: demo_env_def)
  have k: "int 10 \<le> total_frames ?env 30"
    by (simp add: total_frames_def demo_env_def round_double_60)
  have before: "\<forall>j < 10. isRenderingRef_current ?env j" by (simp add: demo_env_def)
  have at: "\<not> isRenderingRef_current ?env 10" by (simp add: demo_env_def)
  from cancelled_render_is_reported_as_failure [OF g k before at, of None]
  show ?thesis by blast
qed

text \<open>
  A job cancelled before its first frame, and a job whose canvas gives no context:
  the component renders the error banner for both.
\<close>

theorem cancellation_is_rendered_as_error:
  "error_banner (error_after None (handleRenderVideo (demo_env (\<lambda>i. False)))) =
     Some ''Error: Rendering failed: Render cancelled. Check console for details.''
   \<and> error_banner (error_after None
        (handleRenderVideo ((demo_env (\<lambda>i. True))\<lparr>getContext := False\<rparr>))) =
     Some ''Error: Rendering failed: Could not get canvas context. Check console for details.''"
proof -
  let ?env = "demo_env (\<lambda>i. False)"
  have g: "canvasRef_current ?env" "audioRef_current ?env" "audioFile ?env"
    "analyserRef_current ?env" "\<not> isRendering ?env" "decodeAudioData ?env = None"
    "getContext ?env"
    by (simp_all add: demo_env_def)
  have k: "int 0 \<le> total_frames ?env 30"
    by (simp add: total_frames_def demo_env_def round_double_60)
  have before: "\<forall>j < 0. isRenderingRef_current ?env j" by simp
  have at: "\<not> isRenderingRef_current ?env 0" by (simp add: demo_env_def)
  note c = handleRenderVideo_cancelled [OF g k before at, of None]
  let ?bad = "(demo_env (\<lambda>i. True))\<lparr>getContext := False\<rparr>"
  have b: "canvasRef_current ?bad" "audioRef_current ?bad" "audioFile ?bad"
    "analyserRef_current ?bad" "\<not> isRendering ?bad" "decodeAudioData ?bad = None"
    "\<not> getContext ?bad"
    by (simp_all add: demo_env_def)
  note n = handleRenderVideo_no_context [OF b, of None]
  show ?thesis using c n by blast
qed

end
